theory Spec2Isabelle
  imports Main "HOL-Library.Signed_Division" "HOL-Library.Multiset"
begin

section \<open>Data model of main.cpp\<close>

text \<open>
  The C++ type \<open>int\<close> is modelled by \<^typ>\<open>int\<close>; the division and remainder of
  C++ truncate towards zero and are written \<open>sdiv\<close> and \<open>smod\<close>. The product and
  the sum of \<open>cellNumberByPosition\<close> leave the range of the 32-bit \<open>int\<close> on large
  grids, and are taken with the wrap-around of the machine (\<open>wrap_int\<close>); every other
  quantity below is bounded by the grid size, the number of players or a score.
  A \<open>std::string\<close> is a \<^typ>\<open>string\<close>, a \<open>std::vector\<close> a list, and
  \<open>std::vector::at\<close> raises \<open>std::out_of_range\<close>, which is a value of the type
  \<open>error\<close>.
\<close>

datatype error = OutOfRange | RuntimeError | LengthError | DivisionByZero

definition INT_MAX :: int where
  "INT_MAX = 2147483647"

text \<open>\<open>xs.at(i)\<close>: the index is converted to \<open>size_t\<close>, so a negative one is out of range.\<close>

definition at :: "'a list \<Rightarrow> int \<Rightarrow> error + 'a" where
  "at xs i = (if 0 \<le> i \<and> i < int (length xs) then Inr (xs ! nat i) else Inl OutOfRange)"

text \<open>The conversion of an \<open>int\<close> to the 64-bit \<open>size_t\<close> in a mixed comparison.\<close>

definition size_t :: "int \<Rightarrow> int" where
  "size_t i = i mod 2 ^ 64"

record ConnectedCell =
  row :: int
  column :: int
  verticalChain :: int
  horizontalChain :: int
  diagonalLeftChain :: int
  diagonalRightChain :: int
  totalConnected :: int

text \<open>
  \<open>Player\<close> and its subclass \<open>Bot\<close>: the dynamic type is the field \<open>kind\<close>, which
  selects the virtual functions \<open>name\<close> and \<open>requireCellSelection\<close>.
\<close>

datatype player_kind = Human | Computer

record Player =
  kind :: player_kind
  number :: int
  marker :: string
  score :: int
  lastScore :: int


definition setScore :: "Player \<Rightarrow> int \<Rightarrow> Player" where
  "setScore p s = p\<lparr>lastScore := score p, score := s\<rparr>"

text \<open>
  \<open>Board\<close> with its two subclasses. The players are shared objects: \<open>_playerTurn\<close>
  is a pointer to one of the elements of \<open>_players\<close>, so it is the index of that
  element, and \<open>None\<close> is \<open>nullptr\<close>.
\<close>

datatype board_variant = Classic | Frenzy

record Board =
  variant :: board_variant
  players :: "Player list"
  gridSize :: int
  grid :: "string list list"
  playerTurn :: "nat option"

text \<open>
  The constructor \<open>Board::Board\<close>: a grid of \<open>gridSize\<close> rows of \<open>gridSize\<close> empty
  strings. A negative size converts to a huge \<open>size_t\<close> and the vector constructor
  raises.
\<close>

definition Board_init :: "board_variant \<Rightarrow> Player list \<Rightarrow> int \<Rightarrow> error + Board" where
  "Board_init v ps n =
     (if n < 0 then Inl LengthError
      else Inr \<lparr>variant = v, players = ps, gridSize = n,
                grid = replicate (nat n) (replicate (nat n) ''''),
                playerTurn = None\<rparr>)"

definition ClassicBoard :: "Player list \<Rightarrow> error + Board" where
  "ClassicBoard ps = Board_init Classic ps (int (length ps) + 1)"

definition FrenzyBoard :: "Player list \<Rightarrow> int \<Rightarrow> error + Board" where
  "FrenzyBoard ps n = Board_init Frenzy ps n"

definition columnByCellNumber :: "Board \<Rightarrow> int \<Rightarrow> int" where
  "columnByCellNumber b cellNumber = cellNumber smod gridSize b"

definition rowByCellNumber :: "Board \<Rightarrow> int \<Rightarrow> int" where
  "rowByCellNumber b cellNumber = cellNumber sdiv gridSize b"

text \<open>
  The 32-bit two's complement value that an \<open>int\<close> operation leaves when its
  mathematical result is \<open>i\<close>: \<open>i\<close> itself inside \<open>[- 2\<^sup>3\<^sup>1, 2\<^sup>3\<^sup>1 - 1]\<close>, and \<open>i\<close>
  reduced modulo \<open>2\<^sup>3\<^sup>2\<close> into that range outside.
\<close>

definition wrap_int :: "int \<Rightarrow> int" where
  "wrap_int i = (i + 2147483648) mod 4294967296 - 2147483648"

definition cellNumberByPosition :: "Board \<Rightarrow> int \<Rightarrow> int \<Rightarrow> int" where
  "cellNumberByPosition b r c = wrap_int (wrap_int (r * gridSize b) + c)"

text \<open>
  The class invariant of a constructed board: the grid is \<open>gridSize\<close> by \<open>gridSize\<close>
  (the constructor and \<open>reset\<close> build it so, and marking keeps the shape), the size is
  a positive \<open>int\<close>, and the turn pointer points into the player list.
\<close>

definition board_ok :: "Board \<Rightarrow> bool" where
  "board_ok b \<longleftrightarrow>
     0 < gridSize b \<and> gridSize b \<le> INT_MAX \<and>
     length (grid b) = nat (gridSize b) \<and>
     list_all (\<lambda>cells. length cells = nat (gridSize b)) (grid b) \<and>
     (case playerTurn b of None \<Rightarrow> True | Some i \<Rightarrow> i < length (players b))"

text \<open>
  The board of the scenario used as the concrete input below: the Classic board of two
  players, a human with marker X (player 1) and a bot with marker O (player 2), with X
  on the cells 0 and 1 and the bot to move.
\<close>

definition playerX :: Player where
  "playerX = \<lparr>kind = Human, number = 1, marker = ''X'', score = 0, lastScore = 0\<rparr>"

definition botO :: Player where
  "botO = \<lparr>kind = Computer, number = 2, marker = ''O'', score = 0, lastScore = 0\<rparr>"

definition scenarioBoard :: Board where
  "scenarioBoard = \<lparr>variant = Classic, players = [playerX, botO], gridSize = 3,
     grid = [[''X'', ''X'', ''''], ['''', '''', ''''], ['''', '''', '''']],
     playerTurn = Some 1\<rparr>"

lemma scenarioBoard_ok: "board_ok scenarioBoard"
  by (simp add: board_ok_def scenarioBoard_def INT_MAX_def)

section \<open>Cell numbers and positions\<close>

lemma sdiv_nonneg_eq_div: "0 \<le> (a::int) \<Longrightarrow> 0 < n \<Longrightarrow> a sdiv n = a div n"
  by (simp add: signed_divide_int_def sgn_if)

lemma smod_nonneg_eq_mod: "0 \<le> (a::int) \<Longrightarrow> 0 < n \<Longrightarrow> a smod n = a mod n"
  by (simp add: signed_modulo_int_def sgn_if)

lemma wrap_int_id: "- 2147483648 \<le> i \<Longrightarrow> i \<le> INT_MAX \<Longrightarrow> wrap_int i = i"
  by (simp add: wrap_int_def INT_MAX_def)

lemma cell_number_in_range:
  assumes "0 \<le> r" "r < n" "0 \<le> c" "c < n"
  shows "0 \<le> r * n + c \<and> r * n + c < n * (n::int)"
proof
  show "0 \<le> r * n + c" using assms by simp
  have "r + 1 \<le> n" using assms by simp
  then have "(r + 1) * n \<le> n * n" using assms by (simp add: mult_right_mono)
  then show "r * n + c < n * n" using assms by (simp add: algebra_simps)
qed

text \<open>
  On a grid whose cell numbers fit an \<open>int\<close>, the product and the sum of
  \<open>cellNumberByPosition\<close> stay in the range of \<open>int\<close>.
\<close>

lemma cell_number_fits_int:
  assumes "0 \<le> r" "r < n" "0 \<le> c" "c < n" "n * n - 1 \<le> INT_MAX"
  shows "0 \<le> r * n \<and> r * n \<le> INT_MAX \<and> 0 \<le> r * n + c \<and> r * n + c \<le> INT_MAX"
proof -
  have "0 \<le> r * n" using assms by simp
  moreover have "r * n + c < n * n" using cell_number_in_range [OF assms(1-4)] by simp
  ultimately show ?thesis using assms by simp
qed

lemma cellNumberByPosition_exact:
  assumes "0 \<le> r" "r < gridSize b" "0 \<le> c" "c < gridSize b"
    and "gridSize b * gridSize b - 1 \<le> INT_MAX"
  shows "cellNumberByPosition b r c = r * gridSize b + c"
  using cell_number_fits_int [OF assms]
  by (simp add: cellNumberByPosition_def wrap_int_id)

lemma cell_position_roundtrip:
  assumes "0 < gridSize b" "0 \<le> c" "c \<le> INT_MAX"
  shows "cellNumberByPosition b (rowByCellNumber b c) (columnByCellNumber b c) = c"
proof -
  let ?n = "gridSize b"
  have decode: "rowByCellNumber b c = c div ?n" "columnByCellNumber b c = c mod ?n"
    using assms by (simp_all add: rowByCellNumber_def columnByCellNumber_def
        sdiv_nonneg_eq_div smod_nonneg_eq_mod)
  have sum: "c div ?n * ?n + c mod ?n = c" by simp
  have "0 \<le> c div ?n * ?n" using assms by (simp add: pos_imp_zdiv_nonneg_iff)
  moreover have "0 \<le> c mod ?n" using assms by simp
  ultimately have "c div ?n * ?n \<le> c" using sum by linarith
  with \<open>0 \<le> c div ?n * ?n\<close> assms have "wrap_int (c div ?n * ?n) = c div ?n * ?n"
    by (intro wrap_int_id) simp_all
  moreover have "wrap_int c = c" using assms by (intro wrap_int_id) simp_all
  ultimately show ?thesis
    unfolding cellNumberByPosition_def decode using sum by simp
qed

lemma position_of_cell_number:
  assumes "0 \<le> r" "0 \<le> c" "c < (n::int)"
  shows "(r * n + c) div n = r" and "(r * n + c) mod n = c"
  using assms by (simp_all add: div_pos_pos_trivial)

lemma div_lt_square:
  assumes "0 \<le> c" "c < n * n" "0 < (n::int)"
  shows "c div n < n"
proof (rule ccontr)
  assume "\<not> c div n < n"
  then have "n * n \<le> n * (c div n)"
    using assms by (simp add: mult_left_mono)
  moreover have "n * (c div n) + c mod n = c" by simp
  moreover have "0 \<le> c mod n" using assms by simp
  ultimately show False using assms by linarith
qed

text \<open>
  A Frenzy board of grid size 46341, the smallest one with a cell number beyond
  \<open>INT_MAX\<close>.
\<close>

definition largeBoard :: Board where
  "largeBoard = \<lparr>variant = Frenzy, players = [playerX, botO], gridSize = 46341,
     grid = replicate 46341 (replicate 46341 ''''), playerTurn = None\<rparr>"

text \<open>
  C8, as stated, fails: the grid size is any \<open>int\<close> from 3 on, and from the size 46341
  on the sum \<open>row * N + column\<close> of a position of the grid overflows the 32-bit \<open>int\<close>.
  For the last cell of the grid of size 46341 \<open>cellNumberByPosition\<close> is negative: it
  is neither \<open>row * N + column\<close> nor a number of \<open>[0, N\<^sup>2)\<close>.
\<close>

theorem C8_cell_number_bijection_counterexample:
  "3 \<le> gridSize largeBoard
   \<and> (0::int) \<le> 46340 \<and> 46340 < gridSize largeBoard
   \<and> cellNumberByPosition largeBoard 46340 46340 = - 2147479016
   \<and> cellNumberByPosition largeBoard 46340 46340 \<noteq> 46340 * gridSize largeBoard + 46340
   \<and> \<not> 0 \<le> cellNumberByPosition largeBoard 46340 46340"
  by (simp add: largeBoard_def cellNumberByPosition_def wrap_int_def)

text \<open>
  C8, amended. For every grid size \<open>N \<ge> 3\<close>, on cell numbers \<open>c \<ge> 0\<close> the row is
  \<open>c div N\<close> and the column is \<open>c mod N\<close>, and the cell number of the row and the
  column of \<open>c\<close> is \<open>c\<close> for every \<open>int\<close> \<open>c \<ge> 0\<close>. When the cell numbers of the
  grid fit an \<open>int\<close>, \<open>N\<^sup>2 - 1 \<le> INT_MAX\<close> (that is \<open>N \<le> 46340\<close>), the cell number of a
  position of the grid is \<open>r * N + col\<close>, the round trip holds for every \<open>c\<close> in
  \<open>[0, N\<^sup>2)\<close>, and the map from positions to cell numbers is a bijection between
  \<open>[0, N) \<times> [0, N)\<close> and \<open>[0, N\<^sup>2)\<close>.
\<close>

theorem C8_cell_number_bijection:
  assumes "3 \<le> gridSize b"
  shows "(\<forall>c. 0 \<le> c \<longrightarrow> rowByCellNumber b c = c div gridSize b
             \<and> columnByCellNumber b c = c mod gridSize b)
       \<and> (\<forall>c. 0 \<le> c \<and> c \<le> INT_MAX \<longrightarrow>
             cellNumberByPosition b (rowByCellNumber b c) (columnByCellNumber b c) = c)
       \<and> (gridSize b * gridSize b - 1 \<le> INT_MAX \<longrightarrow>
            (\<forall>r col. 0 \<le> r \<and> r < gridSize b \<and> 0 \<le> col \<and> col < gridSize b \<longrightarrow>
               cellNumberByPosition b r col = r * gridSize b + col)
          \<and> (\<forall>c. 0 \<le> c \<and> c < gridSize b * gridSize b \<longrightarrow>
               cellNumberByPosition b (rowByCellNumber b c) (columnByCellNumber b c) = c)
          \<and> bij_betw (\<lambda>(r, col). cellNumberByPosition b r col)
               ({0 ..< gridSize b} \<times> {0 ..< gridSize b}) {0 ..< gridSize b * gridSize b})"
proof -
  let ?n = "gridSize b"
  have n: "0 < ?n" using assms by simp
  have decode: "\<forall>c. 0 \<le> c \<longrightarrow> rowByCellNumber b c = c div ?n \<and> columnByCellNumber b c = c mod ?n"
    using n by (simp add: rowByCellNumber_def columnByCellNumber_def
        sdiv_nonneg_eq_div smod_nonneg_eq_mod)
  have round: "\<forall>c. 0 \<le> c \<and> c \<le> INT_MAX \<longrightarrow>
      cellNumberByPosition b (rowByCellNumber b c) (columnByCellNumber b c) = c"
    using n by (simp add: cell_position_roundtrip)
  have fits: "(\<forall>r col. 0 \<le> r \<and> r < ?n \<and> 0 \<le> col \<and> col < ?n \<longrightarrow>
               cellNumberByPosition b r col = r * ?n + col)
          \<and> (\<forall>c. 0 \<le> c \<and> c < ?n * ?n \<longrightarrow>
               cellNumberByPosition b (rowByCellNumber b c) (columnByCellNumber b c) = c)
          \<and> bij_betw (\<lambda>(r, col). cellNumberByPosition b r col)
               ({0 ..< ?n} \<times> {0 ..< ?n}) {0 ..< ?n * ?n}"
    if small: "?n * ?n - 1 \<le> INT_MAX"
  proof (intro conjI)
    show encode: "\<forall>r col. 0 \<le> r \<and> r < ?n \<and> 0 \<le> col \<and> col < ?n \<longrightarrow>
               cellNumberByPosition b r col = r * ?n + col"
      using small by (simp add: cellNumberByPosition_exact)
    show "\<forall>c. 0 \<le> c \<and> c < ?n * ?n \<longrightarrow>
               cellNumberByPosition b (rowByCellNumber b c) (columnByCellNumber b c) = c"
      using n small by (simp add: cell_position_roundtrip)
    show "bij_betw (\<lambda>(r, col). cellNumberByPosition b r col)
        ({0 ..< ?n} \<times> {0 ..< ?n}) {0 ..< ?n * ?n}"
    proof (rule bij_betw_byWitness [where f' = "\<lambda>c. (c div ?n, c mod ?n)"])
      show "\<forall>a\<in>{0..<?n} \<times> {0..<?n}.
          (case (\<lambda>(r, col). cellNumberByPosition b r col) a of c \<Rightarrow> (c div ?n, c mod ?n)) = a"
        using n encode by (auto simp: position_of_cell_number)
      have inside: "c div ?n \<in> {0..<?n} \<and> c mod ?n \<in> {0..<?n}" if "c \<in> {0..<?n * ?n}" for c
      proof -
        from that have c: "0 \<le> c" "c < ?n * ?n" by simp_all
        have "c div ?n < ?n" using c n by (rule div_lt_square)
        moreover have "0 \<le> c div ?n" using c n by (simp add: pos_imp_zdiv_nonneg_iff)
        ultimately show ?thesis using n by simp
      qed
      show "\<forall>a'\<in>{0..<?n * ?n}. (\<lambda>(r, col). cellNumberByPosition b r col) (a' div ?n, a' mod ?n) = a'"
      proof
        fix c assume c: "c \<in> {0..<?n * ?n}"
        from inside [OF c] encode
        have "cellNumberByPosition b (c div ?n) (c mod ?n) = c div ?n * ?n + c mod ?n"
          by simp
        then show "(\<lambda>(r, col). cellNumberByPosition b r col) (c div ?n, c mod ?n) = c"
          by simp
      qed
      show "(\<lambda>(r, col). cellNumberByPosition b r col) ` ({0..<?n} \<times> {0..<?n}) \<subseteq> {0..<?n * ?n}"
      proof
        fix v assume "v \<in> (\<lambda>(r, col). cellNumberByPosition b r col) ` ({0..<?n} \<times> {0..<?n})"
        then obtain r col where rc: "0 \<le> r" "r < ?n" "0 \<le> col" "col < ?n"
          and v: "v = cellNumberByPosition b r col"
          by auto
        from encode rc v have "v = r * ?n + col" by simp
        with cell_number_in_range [OF rc] show "v \<in> {0..<?n * ?n}" by simp
      qed
      show "(\<lambda>c. (c div ?n, c mod ?n)) ` {0..<?n * ?n} \<subseteq> {0..<?n} \<times> {0..<?n}"
        using inside by auto
    qed
  qed
  from decode round fits show ?thesis by blast
qed

theorem C8_cell_number_bijection_witness:
  "3 \<le> gridSize scenarioBoard
   \<and> gridSize scenarioBoard * gridSize scenarioBoard - 1 \<le> INT_MAX
   \<and> rowByCellNumber scenarioBoard 5 = 1 \<and> columnByCellNumber scenarioBoard 5 = 2
   \<and> cellNumberByPosition scenarioBoard 1 2 = 5
   \<and> cellNumberByPosition scenarioBoard (rowByCellNumber scenarioBoard 5)
        (columnByCellNumber scenarioBoard 5) = 5
   \<and> bij_betw (\<lambda>(r, col). cellNumberByPosition scenarioBoard r col)
        ({0 ..< 3} \<times> {0 ..< 3}) {0 ..< 9}"
proof -
  have g: "3 \<le> gridSize scenarioBoard" and n: "gridSize scenarioBoard = 3"
    and small: "gridSize scenarioBoard * gridSize scenarioBoard - 1 \<le> INT_MAX"
    by (simp_all add: scenarioBoard_def INT_MAX_def)
  note t = C8_cell_number_bijection [OF g, unfolded n]
  from t have dec: "rowByCellNumber scenarioBoard 5 = 5 div 3 \<and> columnByCellNumber scenarioBoard 5 = 5 mod 3"
    by simp
  from t small have fits:
    "(\<forall>r col. 0 \<le> r \<and> r < 3 \<and> 0 \<le> col \<and> col < 3 \<longrightarrow>
               cellNumberByPosition scenarioBoard r col = r * 3 + col)"
    "bij_betw (\<lambda>(r, col). cellNumberByPosition scenarioBoard r col)
        ({0 ..< 3} \<times> {0 ..< 3}) {0 ..< 3 * 3}"
    unfolding n by blast+
  from fits(1) have enc: "cellNumberByPosition scenarioBoard 1 2 = 1 * 3 + 2"
    by simp
  from g small dec enc fits(2) show ?thesis by simp
qed

section \<open>Construction of the two board variants\<close>

text \<open>
  C9. Constructing a Classic board from a player list of size \<open>P\<close> succeeds and fixes
  the grid size to \<open>P + 1\<close>, with a grid of that many rows and columns of empty cells
  (3 by 3 for two players, 4 by 4 for three): the constructor takes no grid size. The
  Frenzy constructor takes the grid size as an argument and keeps it.
\<close>

theorem C9_classic_grid_size:
  "(\<exists>b. ClassicBoard ps = Inr b \<and> gridSize b = int (length ps) + 1
        \<and> grid b = replicate (length ps + 1) (replicate (length ps + 1) '''')
        \<and> players b = ps \<and> variant b = Classic)
   \<and> (\<exists>b. ClassicBoard [p1, p2] = Inr b \<and> gridSize b = 3)
   \<and> (\<exists>b. ClassicBoard [p1, p2, p3] = Inr b \<and> gridSize b = 4)
   \<and> FrenzyBoard ps n = (if n < 0 then Inl LengthError
        else Inr \<lparr>variant = Frenzy, players = ps, gridSize = n,
                  grid = replicate (nat n) (replicate (nat n) ''''), playerTurn = None\<rparr>)"
  by (simp add: ClassicBoard_def FrenzyBoard_def Board_init_def nat_add_distrib)

section \<open>Chain analysis\<close>

definition cellAt :: "Board \<Rightarrow> int \<Rightarrow> int \<Rightarrow> error + string" where
  "cellAt b r c = (case at (grid b) r of Inl e \<Rightarrow> Inl e | Inr cells \<Rightarrow> at cells c)"

function countChainLoop ::
  "Board \<Rightarrow> int \<Rightarrow> int \<Rightarrow> int \<Rightarrow> int \<Rightarrow> string \<Rightarrow> int \<Rightarrow> int \<Rightarrow> error + int" where
  "countChainLoop b r c deltaRow deltaColumn targetMarker maxChain chain =
     (if r + deltaRow < 0 \<or> r + deltaRow \<ge> gridSize b
         \<or> c + deltaColumn < 0 \<or> c + deltaColumn \<ge> gridSize b
      then Inr chain
      else (case cellAt b (r + deltaRow) (c + deltaColumn) of
              Inl e \<Rightarrow> Inl e
            | Inr m \<Rightarrow>
                if m \<noteq> targetMarker then Inr chain
                else if chain + 1 < maxChain
                  then countChainLoop b (r + deltaRow) (c + deltaColumn) deltaRow deltaColumn
                         targetMarker maxChain (chain + 1)
                  else Inr (chain + 1)))"
  by pat_completeness auto
termination
  by (relation "measure (\<lambda>(b, r, c, dr, dc, m, maxChain, chain). nat (maxChain - chain))") auto

declare countChainLoop.simps [simp del]

definition countChainByDirection ::
  "Board \<Rightarrow> int \<Rightarrow> int \<Rightarrow> int \<Rightarrow> int \<Rightarrow> string \<Rightarrow> int \<Rightarrow> error + int" where
  "countChainByDirection b r c deltaRow deltaColumn targetMarker maxChain =
     countChainLoop b r c deltaRow deltaColumn targetMarker maxChain 0"

definition cellMatches :: "Board \<Rightarrow> int \<Rightarrow> int \<Rightarrow> string \<Rightarrow> bool" where
  "cellMatches b r c m \<longleftrightarrow>
     0 \<le> r \<and> r < gridSize b \<and> 0 \<le> c \<and> c < gridSize b \<and> grid b ! nat r ! nat c = m"

definition runLength :: "Board \<Rightarrow> int \<Rightarrow> int \<Rightarrow> int \<Rightarrow> int \<Rightarrow> string \<Rightarrow> int \<Rightarrow> int" where
  "runLength b r c dr dc m cap =
     int (length (takeWhile (\<lambda>j. cellMatches b (r + j * dr) (c + j * dc) m) [1..cap]))"

lemma cellAt_ok:
  assumes "board_ok b" "0 \<le> r" "r < gridSize b" "0 \<le> c" "c < gridSize b"
  shows "cellAt b r c = Inr (grid b ! nat r ! nat c)"
proof -
  have len: "length (grid b) = nat (gridSize b)"
    and rows: "\<forall>cells \<in> set (grid b). length cells = nat (gridSize b)"
    using assms(1) by (simp_all add: board_ok_def list_all_iff)
  have "nat r < length (grid b)" using assms len by simp
  then have "grid b ! nat r \<in> set (grid b)" by simp
  with rows have "length (grid b ! nat r) = nat (gridSize b)" by blast
  then show ?thesis using assms len by (simp add: cellAt_def at_def)
qed

lemma map_Suc_upto: "map (\<lambda>j. j + 1) [a..b] = [a + 1..b + 1]"
proof (induction a b rule: upto.induct)
  case (1 i j)
  show ?case
  proof (cases "i \<le> j")
    case True
    then have "[i..j] = i # [i + 1..j]" and "[i + 1..j + 1] = (i + 1) # [i + 1 + 1..j + 1]"
      by (simp_all add: upto_rec1)
    with True 1 show ?thesis by simp
  next
    case False
    then show ?thesis by simp
  qed
qed

lemma takeWhile_upto_shift:
  "length (takeWhile P [a + 1..b + 1]) = length (takeWhile (\<lambda>j. P (j + 1)) [a..b::int])"
proof -
  have "takeWhile P (map (\<lambda>j. j + 1) [a..b]) = map (\<lambda>j. j + 1) (takeWhile (P \<circ> (\<lambda>j. j + 1)) [a..b])"
    by (rule takeWhile_map)
  then show ?thesis by (simp add: map_Suc_upto comp_def)
qed

lemma runLength_step:
  assumes "1 \<le> cap"
  shows "runLength b r c dr dc m cap =
     (if cellMatches b (r + dr) (c + dc) m
      then 1 + runLength b (r + dr) (c + dc) dr dc m (cap - 1) else 0)"
proof -
  have split: "[1..cap] = 1 # [1 + 1..(cap - 1) + 1]"
    using assms by (simp add: upto_rec1)
  have shift: "length (takeWhile (\<lambda>j. cellMatches b (r + j * dr) (c + j * dc) m) [1 + 1..(cap - 1) + 1])
      = length (takeWhile (\<lambda>j. cellMatches b (r + (j + 1) * dr) (c + (j + 1) * dc) m) [1..cap - 1])"
    by (rule takeWhile_upto_shift)
  have "\<And>j. r + (j + 1) * dr = r + dr + j * dr" "\<And>j. c + (j + 1) * dc = c + dc + j * dc"
    by (simp_all add: algebra_simps)
  with shift show ?thesis
    unfolding runLength_def split by simp
qed

lemma runLength_nonpos: "cap \<le> 0 \<Longrightarrow> runLength b r c dr dc m cap = 0"
  by (simp add: runLength_def)

lemma countChainLoop_runLength:
  "board_ok b \<Longrightarrow> 0 \<le> chain \<Longrightarrow> chain < max 1 maxChain \<Longrightarrow>
     countChainLoop b r c dr dc m maxChain chain
       = Inr (chain + runLength b r c dr dc m (max 1 maxChain - chain))"
proof (induction b r c dr dc m maxChain chain rule: countChainLoop.induct)
  case (1 b r c deltaRow deltaColumn targetMarker maxChain chain)
  let ?cap = "max 1 maxChain - chain"
  have cap: "1 \<le> ?cap" using "1.prems" by simp
  note step = runLength_step [OF cap, of b r c deltaRow deltaColumn targetMarker]
  show ?case
  proof (cases "cellMatches b (r + deltaRow) (c + deltaColumn) targetMarker")
    case False
    then have "countChainLoop b r c deltaRow deltaColumn targetMarker maxChain chain = Inr chain"
      using "1.prems"(1)
      by (subst countChainLoop.simps) (auto simp: cellMatches_def cellAt_ok)
    with False step show ?thesis by simp
  next
    case True
    then have inb: "\<not> (r + deltaRow < 0 \<or> gridSize b \<le> r + deltaRow
          \<or> c + deltaColumn < 0 \<or> gridSize b \<le> c + deltaColumn)"
      and cell: "cellAt b (r + deltaRow) (c + deltaColumn) = Inr targetMarker"
      using "1.prems"(1) by (auto simp: cellMatches_def cellAt_ok)
    show ?thesis
    proof (cases "chain + 1 < maxChain")
      case more: True
      have "countChainLoop b r c deltaRow deltaColumn targetMarker maxChain chain
          = countChainLoop b (r + deltaRow) (c + deltaColumn) deltaRow deltaColumn
              targetMarker maxChain (chain + 1)"
        using inb cell more by (subst countChainLoop.simps) simp
      also have "\<dots> = Inr (chain + 1 + runLength b (r + deltaRow) (c + deltaColumn)
            deltaRow deltaColumn targetMarker (max 1 maxChain - (chain + 1)))"
        using inb cell more "1.prems" by (intro "1.IH") auto
      finally show ?thesis using True step by (simp add: algebra_simps)
    next
      case last: False
      then have "?cap - 1 \<le> 0" using "1.prems" by simp
      then have z: "runLength b (r + deltaRow) (c + deltaColumn) deltaRow deltaColumn
            targetMarker (?cap - 1) = 0"
        by (rule runLength_nonpos)
      have "countChainLoop b r c deltaRow deltaColumn targetMarker maxChain chain = Inr (chain + 1)"
        using inb cell last by (subst countChainLoop.simps) simp
      with True step z show ?thesis by simp
    qed
  qed
qed

lemma countChainByDirection_runLength:
  "board_ok b \<Longrightarrow>
     countChainByDirection b r c dr dc m maxChain = Inr (runLength b r c dr dc m (max 1 maxChain))"
  using countChainLoop_runLength [of b 0 maxChain r c dr dc m]
  by (simp add: countChainByDirection_def)

definition countCurrentTopChain :: "Board \<Rightarrow> int \<Rightarrow> int \<Rightarrow> string \<Rightarrow> int \<Rightarrow> error + int" where
  "countCurrentTopChain b r c targetMarker maxChain =
     countChainByDirection b r c (- 1) 0 targetMarker maxChain"

definition countCurrentBottomChain :: "Board \<Rightarrow> int \<Rightarrow> int \<Rightarrow> string \<Rightarrow> int \<Rightarrow> error + int" where
  "countCurrentBottomChain b r c targetMarker maxChain =
     countChainByDirection b r c 1 0 targetMarker maxChain"

definition countCurrentLeftChain :: "Board \<Rightarrow> int \<Rightarrow> int \<Rightarrow> string \<Rightarrow> int \<Rightarrow> error + int" where
  "countCurrentLeftChain b r c targetMarker maxChain =
     countChainByDirection b r c 0 (- 1) targetMarker maxChain"

definition countCurrentRightChain :: "Board \<Rightarrow> int \<Rightarrow> int \<Rightarrow> string \<Rightarrow> int \<Rightarrow> error + int" where
  "countCurrentRightChain b r c targetMarker maxChain =
     countChainByDirection b r c 0 1 targetMarker maxChain"

definition countTopLeftChain :: "Board \<Rightarrow> int \<Rightarrow> int \<Rightarrow> string \<Rightarrow> int \<Rightarrow> error + int" where
  "countTopLeftChain b r c targetMarker maxChain =
     countChainByDirection b r c (- 1) (- 1) targetMarker maxChain"

definition countTopRightChain :: "Board \<Rightarrow> int \<Rightarrow> int \<Rightarrow> string \<Rightarrow> int \<Rightarrow> error + int" where
  "countTopRightChain b r c targetMarker maxChain =
     countChainByDirection b r c (- 1) 1 targetMarker maxChain"

definition countBottomLeftChain :: "Board \<Rightarrow> int \<Rightarrow> int \<Rightarrow> string \<Rightarrow> int \<Rightarrow> error + int" where
  "countBottomLeftChain b r c targetMarker maxChain =
     countChainByDirection b r c 1 (- 1) targetMarker maxChain"

definition countBottomRightChain :: "Board \<Rightarrow> int \<Rightarrow> int \<Rightarrow> string \<Rightarrow> int \<Rightarrow> error + int" where
  "countBottomRightChain b r c targetMarker maxChain =
     countChainByDirection b r c 1 1 targetMarker maxChain"

text \<open>
  \<open>Board::findConnectedCell\<close>. The eight scans are made in the order of the source;
  an exception of one of them leaves the function.
\<close>

definition findConnectedCell ::
  "Board \<Rightarrow> int \<Rightarrow> int \<Rightarrow> string \<Rightarrow> int \<Rightarrow> error + ConnectedCell" where
  "findConnectedCell b r c targetMarker maxChain =
     (case countCurrentTopChain b r c targetMarker maxChain of Inl e \<Rightarrow> Inl e | Inr topRun \<Rightarrow>
      case countCurrentBottomChain b r c targetMarker maxChain of Inl e \<Rightarrow> Inl e | Inr bottomRun \<Rightarrow>
      case countCurrentLeftChain b r c targetMarker maxChain of Inl e \<Rightarrow> Inl e | Inr leftRun \<Rightarrow>
      case countCurrentRightChain b r c targetMarker maxChain of Inl e \<Rightarrow> Inl e | Inr rightRun \<Rightarrow>
      case countTopLeftChain b r c targetMarker maxChain of Inl e \<Rightarrow> Inl e | Inr topLeftRun \<Rightarrow>
      case countBottomRightChain b r c targetMarker maxChain of Inl e \<Rightarrow> Inl e | Inr bottomRightRun \<Rightarrow>
      case countTopRightChain b r c targetMarker maxChain of Inl e \<Rightarrow> Inl e | Inr topRightRun \<Rightarrow>
      case countBottomLeftChain b r c targetMarker maxChain of Inl e \<Rightarrow> Inl e | Inr bottomLeftRun \<Rightarrow>
        (let vertical = topRun + bottomRun;
             total1 = 0 + (if vertical \<ge> 2 then vertical + 1 else 0);
             horizontal = leftRun + rightRun;
             total2 = total1 + (if horizontal \<ge> 2 then horizontal + 1 else 0);
             diagonalLeft = topLeftRun + bottomRightRun;
             total3 = total2 + (if diagonalLeft \<ge> 2 then diagonalLeft + 1 else 0);
             diagonalRight = topRightRun + bottomLeftRun;
             total4 = total3 + (if diagonalRight \<ge> 2 then diagonalRight + 1 else 0)
         in Inr \<lparr>row = r, column = c,
                  verticalChain = vertical, horizontalChain = horizontal,
                  diagonalLeftChain = diagonalLeft, diagonalRightChain = diagonalRight,
                  totalConnected = total4\<rparr>))"

subsection \<open>What a run length is\<close>

lemma runLength_bounds: "0 \<le> runLength b r c dr dc m cap \<and> runLength b r c dr dc m cap \<le> max 0 cap"
proof -
  have "length (takeWhile (\<lambda>j. cellMatches b (r + j * dr) (c + j * dc) m) [1..cap]) \<le> length [1..cap]"
    by (rule length_takeWhile_le)
  then show ?thesis by (simp add: runLength_def)
qed

lemma runLength_all_match:
  assumes "1 \<le> j" "j \<le> runLength b r c dr dc m cap"
  shows "cellMatches b (r + j * dr) (c + j * dc) m"
proof -
  let ?P = "\<lambda>j. cellMatches b (r + j * dr) (c + j * dc) m"
  let ?k = "length (takeWhile ?P [1..cap])"
  have k: "nat (j - 1) < ?k" using assms by (simp add: runLength_def)
  have "?k \<le> length [1..cap]" by (rule length_takeWhile_le)
  then have jc: "j \<le> cap" using k by simp
  have "takeWhile ?P [1..cap] ! nat (j - 1) = [1..cap] ! nat (j - 1)"
    using k by (rule takeWhile_nth)
  also have "\<dots> = j" using assms jc by simp
  finally have "j \<in> set (takeWhile ?P [1..cap])"
    using k nth_mem by metis
  then show ?thesis by (rule set_takeWhileD [THEN conjunct2])
qed

lemma runLength_stops:
  assumes "runLength b r c dr dc m cap < cap"
  shows "\<not> cellMatches b (r + (runLength b r c dr dc m cap + 1) * dr)
            (c + (runLength b r c dr dc m cap + 1) * dc) m"
proof -
  let ?P = "\<lambda>j. cellMatches b (r + j * dr) (c + j * dc) m"
  let ?k = "length (takeWhile ?P [1..cap])"
  have k: "?k < length [1..cap]" using assms by (simp add: runLength_def)
  then have "\<not> ?P ([1..cap] ! ?k)" by (rule nth_length_takeWhile)
  moreover have "[1..cap] ! ?k = 1 + int ?k" using k by simp
  ultimately show ?thesis by (simp add: runLength_def add.commute)
qed

lemma runLength_no_neighbour:
  "\<not> cellMatches b (r + dr) (c + dc) m \<Longrightarrow> runLength b r c dr dc m (max 1 maxChain) = 0"
  by (simp add: runLength_step)


subsection \<open>The directional run count\<close>

text \<open>
  C4, as stated, fails: the loop of \<open>_countChainByDirection\<close> is a \<open>do ... while\<close>,
  which tests \<open>chain < maxChain\<close> only after a step, so with \<open>maxChain = 0\<close> and a
  matching neighbour the result is 1, which exceeds \<open>maxChain\<close> and is not the number
  of matching cells counted up to \<open>maxChain\<close>.
\<close>

theorem C4_run_count_counterexample:
  "countChainByDirection scenarioBoard 0 0 0 1 ''X'' 0 = Inr 1
   \<and> runLength scenarioBoard 0 0 0 1 ''X'' 0 = 0
   \<and> \<not> (1::int) \<le> 0"
  by (simp add: countChainByDirection_def countChainLoop.simps cellAt_def at_def
      scenarioBoard_def runLength_def)

text \<open>
  C4, amended. On every board (a grid of \<open>gridSize\<close> by \<open>gridSize\<close> cells), for every
  starting cell, direction, marker and \<open>maxChain\<close>, the directional run count returns
  the number \<open>k\<close> of consecutive cells equal to the marker starting one step from the
  cell in that direction, stopping at a grid boundary, at the first cell that does not
  match, or when \<open>max 1 maxChain\<close> is reached: the cells at the steps \<open>1..k\<close> are in the
  grid and match, the cell at step \<open>k + 1\<close> is outside the grid or does not match
  unless the bound is reached, and \<open>0 \<le> k \<le> max 1 maxChain\<close>, so the result never
  exceeds \<open>maxChain\<close> when \<open>maxChain \<ge> 1\<close>. The function returns the count only: the
  grid is not changed.
\<close>

theorem C4_run_count:
  assumes "board_ok b"
  shows "\<exists>k. countChainByDirection b r c dr dc m maxChain = Inr k
      \<and> k = runLength b r c dr dc m (max 1 maxChain)
      \<and> 0 \<le> k \<and> k \<le> max 1 maxChain
      \<and> (1 \<le> maxChain \<longrightarrow> k \<le> maxChain)
      \<and> (\<forall>j. 1 \<le> j \<and> j \<le> k \<longrightarrow> cellMatches b (r + j * dr) (c + j * dc) m)
      \<and> (k < max 1 maxChain \<longrightarrow> \<not> cellMatches b (r + (k + 1) * dr) (c + (k + 1) * dc) m)"
proof -
  let ?k = "runLength b r c dr dc m (max 1 maxChain)"
  have "countChainByDirection b r c dr dc m maxChain = Inr ?k"
    using assms by (rule countChainByDirection_runLength)
  moreover have "0 \<le> ?k" and le: "?k \<le> max 1 maxChain"
    using runLength_bounds [of b r c dr dc m "max 1 maxChain"] by simp_all
  moreover have "1 \<le> maxChain \<longrightarrow> ?k \<le> maxChain"
    using le by (auto simp: max_def)
  moreover have "\<forall>j. 1 \<le> j \<and> j \<le> ?k \<longrightarrow> cellMatches b (r + j * dr) (c + j * dc) m"
    using runLength_all_match by blast
  moreover have "?k < max 1 maxChain \<longrightarrow> \<not> cellMatches b (r + (?k + 1) * dr) (c + (?k + 1) * dc) m"
    using runLength_stops by blast
  ultimately show ?thesis by blast
qed

theorem C4_run_count_witness:
  "board_ok scenarioBoard
   \<and> countChainByDirection scenarioBoard 0 2 0 (- 1) ''X'' 3 = Inr 2
   \<and> runLength scenarioBoard 0 2 0 (- 1) ''X'' 3 = 2
   \<and> countChainByDirection scenarioBoard 0 2 0 (- 1) ''X'' 1 = Inr 1
   \<and> cellMatches scenarioBoard 0 1 ''X'' \<and> cellMatches scenarioBoard 0 0 ''X''
   \<and> \<not> cellMatches scenarioBoard 0 (- 1) ''X''"
proof -
  have run3: "runLength scenarioBoard 0 2 0 (- 1) ''X'' 3 = 2"
    and run1: "runLength scenarioBoard 0 2 0 (- 1) ''X'' 1 = 1"
    by (simp_all add: runLength_def cellMatches_def scenarioBoard_def upto_rec1)
  have cells: "cellMatches scenarioBoard 0 1 ''X''" "cellMatches scenarioBoard 0 0 ''X''"
    "\<not> cellMatches scenarioBoard 0 (- 1) ''X''"
    by (simp_all add: cellMatches_def scenarioBoard_def)
  from C4_run_count [OF scenarioBoard_ok, of 0 2 0 "- 1" "''X''" 3] run3
  have c3: "countChainByDirection scenarioBoard 0 2 0 (- 1) ''X'' 3 = Inr 2"
    by auto
  from C4_run_count [OF scenarioBoard_ok, of 0 2 0 "- 1" "''X''" 1] run1
  have c1: "countChainByDirection scenarioBoard 0 2 0 (- 1) ''X'' 1 = Inr 1"
    by auto
  from scenarioBoard_ok run3 c3 c1 cells show ?thesis by simp
qed

subsection \<open>The connected cell\<close>

lemma findConnectedCell_runLength:
  assumes "board_ok b"
  shows "findConnectedCell b r c m maxChain =
     Inr \<lparr>row = r, column = c,
       verticalChain = runLength b r c (- 1) 0 m (max 1 maxChain) + runLength b r c 1 0 m (max 1 maxChain),
       horizontalChain = runLength b r c 0 (- 1) m (max 1 maxChain) + runLength b r c 0 1 m (max 1 maxChain),
       diagonalLeftChain = runLength b r c (- 1) (- 1) m (max 1 maxChain) + runLength b r c 1 1 m (max 1 maxChain),
       diagonalRightChain = runLength b r c (- 1) 1 m (max 1 maxChain) + runLength b r c 1 (- 1) m (max 1 maxChain),
       totalConnected =
         (let v = runLength b r c (- 1) 0 m (max 1 maxChain) + runLength b r c 1 0 m (max 1 maxChain);
              h = runLength b r c 0 (- 1) m (max 1 maxChain) + runLength b r c 0 1 m (max 1 maxChain);
              dl = runLength b r c (- 1) (- 1) m (max 1 maxChain) + runLength b r c 1 1 m (max 1 maxChain);
              dr = runLength b r c (- 1) 1 m (max 1 maxChain) + runLength b r c 1 (- 1) m (max 1 maxChain)
          in (if 2 \<le> v then v + 1 else 0) + (if 2 \<le> h then h + 1 else 0)
             + (if 2 \<le> dl then dl + 1 else 0) + (if 2 \<le> dr then dr + 1 else 0))\<rparr>"
  unfolding findConnectedCell_def countCurrentTopChain_def countCurrentBottomChain_def
    countCurrentLeftChain_def countCurrentRightChain_def countTopLeftChain_def
    countTopRightChain_def countBottomLeftChain_def countBottomRightChain_def
    countChainByDirection_runLength [OF assms]
  by (simp add: Let_def)


lemmas countChain_defs =
  countCurrentTopChain_def countCurrentBottomChain_def countCurrentLeftChain_def
  countCurrentRightChain_def countTopLeftChain_def countTopRightChain_def
  countBottomLeftChain_def countBottomRightChain_def

text \<open>
  C1. On every board, for every cell and marker, \<open>findConnectedCell\<close> returns the cell
  with the four axis-pair sums of the eight directional run counts (vertical = top +
  bottom, horizontal = left + right, diagonal-left = top-left + bottom-right,
  diagonal-right = top-right + bottom-left), and its \<open>totalConnected\<close> is the sum over
  the four axis pairs of the pair's sum plus one when that sum is at least 2, and of 0
  otherwise. When none of the eight neighbours of the cell holds the marker,
  \<open>totalConnected\<close> is 0.
\<close>

theorem C1_findConnectedCell:
  assumes "board_ok b"
  shows "(\<exists>topRun bottomRun leftRun rightRun topLeftRun bottomRightRun topRightRun bottomLeftRun.
       countCurrentTopChain b r c m maxChain = Inr topRun
     \<and> countCurrentBottomChain b r c m maxChain = Inr bottomRun
     \<and> countCurrentLeftChain b r c m maxChain = Inr leftRun
     \<and> countCurrentRightChain b r c m maxChain = Inr rightRun
     \<and> countTopLeftChain b r c m maxChain = Inr topLeftRun
     \<and> countBottomRightChain b r c m maxChain = Inr bottomRightRun
     \<and> countTopRightChain b r c m maxChain = Inr topRightRun
     \<and> countBottomLeftChain b r c m maxChain = Inr bottomLeftRun
     \<and> findConnectedCell b r c m maxChain =
         Inr \<lparr>row = r, column = c,
           verticalChain = topRun + bottomRun,
           horizontalChain = leftRun + rightRun,
           diagonalLeftChain = topLeftRun + bottomRightRun,
           diagonalRightChain = topRightRun + bottomLeftRun,
           totalConnected =
             (if 2 \<le> topRun + bottomRun then topRun + bottomRun + 1 else 0)
           + (if 2 \<le> leftRun + rightRun then leftRun + rightRun + 1 else 0)
           + (if 2 \<le> topLeftRun + bottomRightRun then topLeftRun + bottomRightRun + 1 else 0)
           + (if 2 \<le> topRightRun + bottomLeftRun then topRightRun + bottomLeftRun + 1 else 0)\<rparr>)
   \<and> ((\<forall>(dr, dc) \<in> {(- 1, 0), (1, 0), (0, - 1), (0, 1), (- 1, - 1), (1, 1), (- 1, 1), (1, - 1)}.
          \<not> cellMatches b (r + dr) (c + dc) m)
        \<longrightarrow> (\<exists>cell. findConnectedCell b r c m maxChain = Inr cell \<and> totalConnected cell = 0))"
proof
  note run = countChainByDirection_runLength [OF assms]
  show "\<exists>topRun bottomRun leftRun rightRun topLeftRun bottomRightRun topRightRun bottomLeftRun.
       countCurrentTopChain b r c m maxChain = Inr topRun
     \<and> countCurrentBottomChain b r c m maxChain = Inr bottomRun
     \<and> countCurrentLeftChain b r c m maxChain = Inr leftRun
     \<and> countCurrentRightChain b r c m maxChain = Inr rightRun
     \<and> countTopLeftChain b r c m maxChain = Inr topLeftRun
     \<and> countBottomRightChain b r c m maxChain = Inr bottomRightRun
     \<and> countTopRightChain b r c m maxChain = Inr topRightRun
     \<and> countBottomLeftChain b r c m maxChain = Inr bottomLeftRun
     \<and> findConnectedCell b r c m maxChain =
         Inr \<lparr>row = r, column = c,
           verticalChain = topRun + bottomRun,
           horizontalChain = leftRun + rightRun,
           diagonalLeftChain = topLeftRun + bottomRightRun,
           diagonalRightChain = topRightRun + bottomLeftRun,
           totalConnected =
             (if 2 \<le> topRun + bottomRun then topRun + bottomRun + 1 else 0)
           + (if 2 \<le> leftRun + rightRun then leftRun + rightRun + 1 else 0)
           + (if 2 \<le> topLeftRun + bottomRightRun then topLeftRun + bottomRightRun + 1 else 0)
           + (if 2 \<le> topRightRun + bottomLeftRun then topRightRun + bottomLeftRun + 1 else 0)\<rparr>"
    unfolding findConnectedCell_def countChain_defs run
    by (simp add: Let_def)
  show "(\<forall>(dr, dc) \<in> {(- 1, 0), (1, 0), (0, - 1), (0, 1), (- 1, - 1), (1, 1), (- 1, 1), (1, - 1)}.
          \<not> cellMatches b (r + dr) (c + dc) m)
        \<longrightarrow> (\<exists>cell. findConnectedCell b r c m maxChain = Inr cell \<and> totalConnected cell = 0)"
  proof
    assume iso: "\<forall>(dr, dc) \<in> {(- 1, 0), (1, 0), (0, - 1), (0, 1), (- 1, - 1), (1, 1), (- 1, 1), (1, - 1)}.
          \<not> cellMatches b (r + dr) (c + dc) m"
    have zero: "runLength b r c dr dc m (max 1 maxChain) = 0"
      if "(dr, dc) \<in> {(- 1, 0), (1, 0), (0, - 1), (0, 1), (- 1, - 1), (1, 1), (- 1, 1), (1, - 1)}"
      for dr dc
      using iso that by (intro runLength_no_neighbour) blast
    show "\<exists>cell. findConnectedCell b r c m maxChain = Inr cell \<and> totalConnected cell = 0"
      unfolding findConnectedCell_def countChain_defs run
      by (simp add: Let_def zero)
  qed
qed

theorem C1_findConnectedCell_witness:
  "board_ok scenarioBoard
   \<and> findConnectedCell scenarioBoard 0 2 ''X'' INT_MAX =
       Inr \<lparr>row = 0, column = 2, verticalChain = 0, horizontalChain = 2,
            diagonalLeftChain = 0, diagonalRightChain = 0, totalConnected = 3\<rparr>
   \<and> \<not> cellMatches scenarioBoard 1 2 ''X'' \<and> \<not> cellMatches scenarioBoard 2 1 ''X''
   \<and> \<not> cellMatches scenarioBoard 1 1 ''X''
   \<and> (\<exists>cell. findConnectedCell scenarioBoard 2 2 ''X'' INT_MAX = Inr cell \<and> totalConnected cell = 0)"
proof -
  note thm1 = C1_findConnectedCell [OF scenarioBoard_ok, of 0 2 "''X''" INT_MAX, THEN conjunct1]
  note thm2 = C1_findConnectedCell [OF scenarioBoard_ok, of 2 2 "''X''" INT_MAX, THEN conjunct2]
  note ev = countChain_defs countChainByDirection_def countChainLoop.simps cellAt_def at_def
    scenarioBoard_def INT_MAX_def
  have runs:
    "countCurrentTopChain scenarioBoard 0 2 ''X'' INT_MAX = Inr 0"
    "countCurrentBottomChain scenarioBoard 0 2 ''X'' INT_MAX = Inr 0"
    "countCurrentLeftChain scenarioBoard 0 2 ''X'' INT_MAX = Inr 2"
    "countCurrentRightChain scenarioBoard 0 2 ''X'' INT_MAX = Inr 0"
    "countTopLeftChain scenarioBoard 0 2 ''X'' INT_MAX = Inr 0"
    "countBottomRightChain scenarioBoard 0 2 ''X'' INT_MAX = Inr 0"
    "countTopRightChain scenarioBoard 0 2 ''X'' INT_MAX = Inr 0"
    "countBottomLeftChain scenarioBoard 0 2 ''X'' INT_MAX = Inr 0"
    by (simp_all add: ev)
  from thm1 have cell: "findConnectedCell scenarioBoard 0 2 ''X'' INT_MAX =
       Inr \<lparr>row = 0, column = 2, verticalChain = 0, horizontalChain = 2,
            diagonalLeftChain = 0, diagonalRightChain = 0, totalConnected = 3\<rparr>"
    unfolding runs by auto
  have iso: "\<forall>(dr, dc) \<in> {(- 1, 0), (1, 0), (0, - 1), (0, 1), (- 1, - 1), (1, 1), (- 1, 1), (1, - 1)}.
      \<not> cellMatches scenarioBoard (2 + dr) (2 + dc) ''X''"
    by (simp add: cellMatches_def scenarioBoard_def)
  have nb: "\<not> cellMatches scenarioBoard 1 2 ''X''" "\<not> cellMatches scenarioBoard 2 1 ''X''"
    "\<not> cellMatches scenarioBoard 1 1 ''X''"
    by (simp_all add: cellMatches_def scenarioBoard_def)
  from thm2 iso have "\<exists>cell. findConnectedCell scenarioBoard 2 2 ''X'' INT_MAX = Inr cell \<and> totalConnected cell = 0"
    by blast
  with scenarioBoard_ok cell nb show ?thesis by blast
qed

subsection \<open>Scans without a bound\<close>

lemma nonzero_step_leaves_grid:
  assumes "0 \<le> r" "r < n" "d \<noteq> (0::int)"
  shows "\<not> (0 \<le> r + n * d \<and> r + n * d < n)"
proof (cases "0 < d")
  case True
  then have "n * 1 \<le> n * d" using assms by (intro mult_left_mono) auto
  then have "n \<le> n * d" by simp
  then show ?thesis using assms by linarith
next
  case False
  then have "d \<le> - 1" using assms by simp
  then have "n * d \<le> n * (- 1)" using assms by (intro mult_left_mono) auto
  then have "n * d \<le> - n" by simp
  then show ?thesis using assms by linarith
qed

lemma runLength_unbounded:
  assumes ok: "board_ok b"
    and cell: "0 \<le> r" "r < gridSize b" "0 \<le> c" "c < gridSize b"
    and dir: "dr \<noteq> 0 \<or> dc \<noteq> 0"
    and cap: "gridSize b \<le> cap"
  shows "runLength b r c dr dc m cap = runLength b r c dr dc m (gridSize b)"
proof -
  let ?n = "gridSize b"
  let ?P = "\<lambda>j. cellMatches b (r + j * dr) (c + j * dc) m"
  have n: "1 \<le> ?n" using ok by (simp add: board_ok_def)
  have out: "\<not> ?P ?n"
    using dir nonzero_step_leaves_grid [OF cell(1,2), of dr] nonzero_step_leaves_grid [OF cell(3,4), of dc]
    by (auto simp: cellMatches_def)
  have "takeWhile ?P [1..k] = takeWhile ?P [1..?n - 1]" if "?n \<le> k" for k
  proof -
    have "[1..k] = [1..?n - 1] @ ?n # [?n + 1..k]"
      using n that by (rule upto_split3)
    then show ?thesis using out by (simp add: takeWhile_tail)
  qed
  from this [of cap] this [of ?n] cap show ?thesis
    by (simp add: runLength_def)
qed

lemma findConnectedCell_unbounded:
  assumes ok: "board_ok b"
    and cell: "0 \<le> r" "r < gridSize b" "0 \<le> c" "c < gridSize b"
    and cap: "INT_MAX \<le> maxChain"
  shows "findConnectedCell b r c m maxChain = findConnectedCell b r c m INT_MAX"
proof -
  have n: "gridSize b \<le> INT_MAX" "0 < gridSize b" using ok by (simp_all add: board_ok_def)
  have m1: "max 1 maxChain = maxChain" "max 1 INT_MAX = INT_MAX"
    using cap by (simp_all add: INT_MAX_def)
  have "runLength b r c dr dc m maxChain = runLength b r c dr dc m INT_MAX"
    if "dr \<noteq> 0 \<or> dc \<noteq> 0" for dr dc
    using runLength_unbounded [OF ok cell that, of maxChain m]
      runLength_unbounded [OF ok cell that, of INT_MAX m] n cap by simp
  then show ?thesis
    unfolding findConnectedCell_runLength [OF ok] m1 by simp
qed

section \<open>Available cells and marking\<close>

text \<open>
  \<open>Board::findAvailableCellNumbers\<close>. The \<open>std::set<int>\<close> is the ascending list of
  its elements without repetition, and \<open>insert\<close> is \<^const>\<open>insort_insert\<close>. The
  loops run over the real sizes of the vectors, so \<open>at\<close> cannot raise here.
\<close>

definition findAvailableCellNumbers :: "Board \<Rightarrow> int list" where
  "findAvailableCellNumbers b =
     fold (\<lambda>r cells.
        fold (\<lambda>c cells.
           if grid b ! r ! c \<noteq> '''' then cells
           else insort_insert (cellNumberByPosition b (int r) (int c)) cells)
          [0 ..< length (grid b ! r)] cells)
       [0 ..< length (grid b)] []"

text \<open>
  \<open>Board::markCellByNumber\<close>, returning the value and the board after the call. The
  division by a grid size of zero is undefined in C++ and is an error here.
\<close>

definition markCellByNumber :: "Board \<Rightarrow> int \<Rightarrow> string \<Rightarrow> error + (bool \<times> Board)" where
  "markCellByNumber b cellNumber mk =
     (if gridSize b = 0 then Inl DivisionByZero
      else
        let x = columnByCellNumber b cellNumber;
            y = rowByCellNumber b cellNumber
        in if x < 0 \<or> x \<ge> gridSize b \<or> y < 0 \<or> y \<ge> gridSize b then Inr (False, b)
           else (case cellAt b y x of
             Inl e \<Rightarrow> Inl e
           | Inr current \<Rightarrow>
               if current \<noteq> '''' then Inr (False, b)
               else (case playerTurn b of
                 None \<Rightarrow> Inr (False, b)
               | Some turn \<Rightarrow>
                   let b' = b\<lparr>grid := (grid b)[nat y := (grid b ! nat y)[nat x := mk]]\<rparr>
                   in (case findConnectedCell b' y x mk INT_MAX of
                     Inl e \<Rightarrow> Inl e
                   | Inr cell \<Rightarrow>
                       let newScore = score (players b ! turn) + totalConnected cell
                       in Inr (True,
                            b'\<lparr>players := (players b)[turn := setScore (players b ! turn) newScore]\<rparr>)))))"

lemma set_fold_insort_insert:
  "set (fold (\<lambda>x cells. if P x then cells else insort_insert (f x) cells) xs acc)
     = set acc \<union> {f x | x. x \<in> set xs \<and> \<not> P x}"
  by (induction xs arbitrary: acc) (auto simp: set_insort_insert)

lemma set_findAvailableCellNumbers:
  "set (findAvailableCellNumbers b) =
     {cellNumberByPosition b (int r) (int c) | r c.
        r < length (grid b) \<and> c < length (grid b ! r) \<and> grid b ! r ! c = ''''}"
proof -
  let ?rowCells = "\<lambda>r. {cellNumberByPosition b (int r) (int c) | c.
        c \<in> set [0 ..< length (grid b ! r)] \<and> \<not> grid b ! r ! c \<noteq> ''''}"
  have "set (fold (\<lambda>r cells.
        fold (\<lambda>c cells.
           if grid b ! r ! c \<noteq> '''' then cells
           else insort_insert (cellNumberByPosition b (int r) (int c)) cells)
          [0 ..< length (grid b ! r)] cells) rs acc)
     = set acc \<union> (\<Union>r \<in> set rs. ?rowCells r)" for rs acc
  proof (induction rs arbitrary: acc)
    case Nil
    then show ?case by simp
  next
    case (Cons r rs)
    have "set (fold (\<lambda>c cells.
           if grid b ! r ! c \<noteq> '''' then cells
           else insort_insert (cellNumberByPosition b (int r) (int c)) cells)
          [0 ..< length (grid b ! r)] acc) = set acc \<union> ?rowCells r"
      by (rule set_fold_insort_insert)
    then show ?case
      by (simp add: Cons.IH Un_assoc)
  qed
  from this [of "[0 ..< length (grid b)]" "[]"]
  have "set (findAvailableCellNumbers b) = (\<Union>r \<in> set [0 ..< length (grid b)]. ?rowCells r)"
    by (simp add: findAvailableCellNumbers_def)
  also have "\<dots> = {cellNumberByPosition b (int r) (int c) | r c.
        r < length (grid b) \<and> c < length (grid b ! r) \<and> grid b ! r ! c = ''''}"
    by (simp add: set_eq_iff Bex_def) blast
  finally show ?thesis .
qed

lemma board_ok_row_length:
  assumes "board_ok b" "0 \<le> r" "r < gridSize b"
  shows "length (grid b ! nat r) = nat (gridSize b)"
proof -
  have "nat r < length (grid b)" using assms by (simp add: board_ok_def)
  then have "grid b ! nat r \<in> set (grid b)" by simp
  then show ?thesis using assms(1) by (simp add: board_ok_def list_all_iff)
qed

lemma board_ok_mark:
  assumes "board_ok b"
  shows "board_ok (b\<lparr>grid := (grid b)[i := (grid b ! i)[j := mk]]\<rparr>)"
proof -
  have rows: "\<forall>cells \<in> set (grid b). length cells = nat (gridSize b)"
    using assms by (simp add: board_ok_def list_all_iff)
  have "length cells = nat (gridSize b)"
    if mem: "cells \<in> set ((grid b)[i := (grid b ! i)[j := mk]])" for cells
  proof (cases "i < length (grid b)")
    case True
    then have "grid b ! i \<in> set (grid b)" by simp
    with rows have len: "length ((grid b ! i)[j := mk]) = nat (gridSize b)" by simp
    from mem set_update_subset_insert [of "grid b" i "(grid b ! i)[j := mk]"]
    have "cells = (grid b ! i)[j := mk] \<or> cells \<in> set (grid b)" by blast
    with len rows show ?thesis by blast
  next
    case False
    then have "(grid b)[i := (grid b ! i)[j := mk]] = grid b"
      by (intro list_update_beyond) simp
    with mem rows show ?thesis by simp
  qed
  then have "\<forall>cells \<in> set ((grid b)[i := (grid b ! i)[j := mk]]). length cells = nat (gridSize b)"
    by blast
  then show ?thesis
    using assms by (simp add: board_ok_def list_all_iff split: option.splits)
qed

lemma markCellByNumber_refused:
  assumes "board_ok b"
    and "columnByCellNumber b cellNumber < 0 \<or> gridSize b \<le> columnByCellNumber b cellNumber
        \<or> rowByCellNumber b cellNumber < 0 \<or> gridSize b \<le> rowByCellNumber b cellNumber
        \<or> grid b ! nat (rowByCellNumber b cellNumber) ! nat (columnByCellNumber b cellNumber) \<noteq> ''''
        \<or> playerTurn b = None"
  shows "markCellByNumber b cellNumber mk = Inr (False, b)"
proof -
  define x where "x = columnByCellNumber b cellNumber"
  define y where "y = rowByCellNumber b cellNumber"
  have n: "gridSize b \<noteq> 0" using assms(1) by (simp add: board_ok_def)
  show ?thesis
  proof (cases "x < 0 \<or> gridSize b \<le> x \<or> y < 0 \<or> gridSize b \<le> y")
    case True
    then show ?thesis
      using n by (auto simp: markCellByNumber_def Let_def x_def y_def)
  next
    case False
    then have "cellAt b y x = Inr (grid b ! nat y ! nat x)"
      using assms(1) by (intro cellAt_ok) auto
    with False assms(2) n show ?thesis
      unfolding markCellByNumber_def Let_def x_def [symmetric] y_def [symmetric]
      by (auto split: option.splits)
  qed
qed

lemma markCellByNumber_placed:
  assumes ok: "board_ok b"
    and x: "x = columnByCellNumber b cellNumber" and y: "y = rowByCellNumber b cellNumber"
    and b': "b' = b\<lparr>grid := (grid b)[nat y := (grid b ! nat y)[nat x := mk]]\<rparr>"
    and inb: "0 \<le> x" "x < gridSize b" "0 \<le> y" "y < gridSize b"
    and empty: "grid b ! nat y ! nat x = ''''" and turn: "playerTurn b = Some turn"
  shows "\<exists>cell. findConnectedCell b' y x mk INT_MAX = Inr cell
        \<and> (\<forall>maxChain. INT_MAX \<le> maxChain \<longrightarrow> findConnectedCell b' y x mk maxChain = Inr cell)
        \<and> markCellByNumber b cellNumber mk =
            Inr (True, b'\<lparr>players := (players b)[turn :=
              (players b ! turn)\<lparr>lastScore := score (players b ! turn),
                 score := score (players b ! turn) + totalConnected cell\<rparr>]\<rparr>)"
proof -
  have n: "gridSize b \<noteq> 0" using ok by (simp add: board_ok_def)
  have ok': "board_ok b'"
    unfolding b' using ok by (rule board_ok_mark)
  have size': "gridSize b' = gridSize b" by (simp add: b')
  obtain cell where cell: "findConnectedCell b' y x mk INT_MAX = Inr cell"
    using findConnectedCell_runLength [OF ok'] by blast
  have unb: "\<forall>maxChain. INT_MAX \<le> maxChain \<longrightarrow> findConnectedCell b' y x mk maxChain = Inr cell"
    using findConnectedCell_unbounded [OF ok', of y x _ mk] inb cell by (simp add: size')
  have at: "cellAt b y x = Inr ''''"
    using cellAt_ok [OF ok inb(3,4) inb(1,2)] empty by simp
  have "markCellByNumber b cellNumber mk =
      Inr (True, b'\<lparr>players := (players b)[turn := setScore (players b ! turn)
        (score (players b ! turn) + totalConnected cell)]\<rparr>)"
    unfolding markCellByNumber_def Let_def x [symmetric] y [symmetric] b' [symmetric]
    using n inb at turn cell by simp
  with cell unb show ?thesis by (simp add: setScore_def)
qed

text \<open>
  C3. On every board, with \<open>x\<close> and \<open>y\<close> the column and the row the cell number
  decodes to: when the position is out of bounds, the cell is occupied or there is no
  turn-holder, \<open>markCellByNumber\<close> returns false and the board (grid, scores and last
  scores) is unchanged. Otherwise it returns true, the cell holds the marker, and the
  score of the turn-holder grows by the \<open>totalConnected\<close> of \<open>findConnectedCell\<close>
  for the placed cell and marker on the new grid, its last score being its previous
  score; nothing else changes. The scan bound of that call is \<open>INT_MAX\<close>, which is no
  bound: every larger one gives the same cell. A placement that connects nothing adds 0
  and still returns true.
\<close>

theorem C3_markCellByNumber:
  assumes "board_ok b"
  shows "let x = columnByCellNumber b cellNumber;
             y = rowByCellNumber b cellNumber;
             b' = b\<lparr>grid := (grid b)[nat y := (grid b ! nat y)[nat x := mk]]\<rparr>
         in ((x < 0 \<or> gridSize b \<le> x \<or> y < 0 \<or> gridSize b \<le> y
               \<or> grid b ! nat y ! nat x \<noteq> '''' \<or> playerTurn b = None)
              \<longrightarrow> markCellByNumber b cellNumber mk = Inr (False, b))
          \<and> (\<forall>turn. 0 \<le> x \<and> x < gridSize b \<and> 0 \<le> y \<and> y < gridSize b
                 \<and> grid b ! nat y ! nat x = '''' \<and> playerTurn b = Some turn
              \<longrightarrow> (\<exists>cell. findConnectedCell b' y x mk INT_MAX = Inr cell
                    \<and> (\<forall>maxChain. INT_MAX \<le> maxChain \<longrightarrow>
                          findConnectedCell b' y x mk maxChain = Inr cell)
                    \<and> markCellByNumber b cellNumber mk =
                        Inr (True, b'\<lparr>players := (players b)[turn :=
                          (players b ! turn)\<lparr>lastScore := score (players b ! turn),
                             score := score (players b ! turn) + totalConnected cell\<rparr>]\<rparr>)))"
proof -
  define x where "x = columnByCellNumber b cellNumber"
  define y where "y = rowByCellNumber b cellNumber"
  define b' where "b' = b\<lparr>grid := (grid b)[nat y := (grid b ! nat y)[nat x := mk]]\<rparr>"
  note refused = markCellByNumber_refused [OF assms, of cellNumber mk, folded x_def y_def]
  note placed = markCellByNumber_placed [OF assms x_def y_def b'_def]
  from refused placed show ?thesis
    unfolding Let_def x_def [symmetric] y_def [symmetric] b'_def [symmetric]
    by blast
qed

lemmas scenario_eval =
  countChain_defs countChainByDirection_def countChainLoop.simps cellAt_def at_def
  findConnectedCell_def columnByCellNumber_def rowByCellNumber_def cellNumberByPosition_def
  wrap_int_def signed_divide_int_def signed_modulo_int_def scenarioBoard_def INT_MAX_def Let_def

theorem C3_markCellByNumber_witness:
  "board_ok scenarioBoard
   \<and> markCellByNumber scenarioBoard 0 ''O'' = Inr (False, scenarioBoard)
   \<and> markCellByNumber scenarioBoard 9 ''O'' = Inr (False, scenarioBoard)
   \<and> markCellByNumber scenarioBoard (- 1) ''O'' = Inr (False, scenarioBoard)
   \<and> markCellByNumber (scenarioBoard\<lparr>playerTurn := None\<rparr>) 8 ''O''
        = Inr (False, scenarioBoard\<lparr>playerTurn := None\<rparr>)
   \<and> markCellByNumber scenarioBoard 8 ''O''
        = Inr (True, scenarioBoard\<lparr>grid := [[''X'', ''X'', ''''], ['''', '''', ''''], ['''', '''', ''O'']],
                      players := [playerX, botO\<lparr>lastScore := 0, score := 0\<rparr>]\<rparr>)
   \<and> markCellByNumber scenarioBoard 2 ''X''
        = Inr (True, scenarioBoard\<lparr>grid := [[''X'', ''X'', ''X''], ['''', '''', ''''], ['''', '''', '''']],
                      players := [playerX, botO\<lparr>lastScore := 0, score := 3\<rparr>]\<rparr>)"
proof -
  have okN: "board_ok (scenarioBoard\<lparr>playerTurn := None\<rparr>)"
    by (simp add: board_ok_def scenarioBoard_def INT_MAX_def)
  have occupied: "markCellByNumber scenarioBoard 0 ''O'' = Inr (False, scenarioBoard)"
    using C3_markCellByNumber [OF scenarioBoard_ok, of 0 "''O''"]
    by (simp add: scenario_eval)
  have beyond: "markCellByNumber scenarioBoard 9 ''O'' = Inr (False, scenarioBoard)"
    using C3_markCellByNumber [OF scenarioBoard_ok, of 9 "''O''"]
    by (simp add: scenario_eval)
  have negative: "markCellByNumber scenarioBoard (- 1) ''O'' = Inr (False, scenarioBoard)"
    using C3_markCellByNumber [OF scenarioBoard_ok, of "- 1" "''O''"]
    by (simp add: scenario_eval)
  have noTurn: "markCellByNumber (scenarioBoard\<lparr>playerTurn := None\<rparr>) 8 ''O''
        = Inr (False, scenarioBoard\<lparr>playerTurn := None\<rparr>)"
    using C3_markCellByNumber [OF okN, of 8 "''O''"]
    by (simp add: scenario_eval)
  have zero: "markCellByNumber scenarioBoard 8 ''O''
        = Inr (True, scenarioBoard\<lparr>grid := [[''X'', ''X'', ''''], ['''', '''', ''''], ['''', '''', ''O'']],
                      players := [playerX, botO\<lparr>lastScore := 0, score := 0\<rparr>]\<rparr>)"
    using C3_markCellByNumber [OF scenarioBoard_ok, of 8 "''O''"]
    by (simp add: scenario_eval botO_def)
  have three: "markCellByNumber scenarioBoard 2 ''X''
        = Inr (True, scenarioBoard\<lparr>grid := [[''X'', ''X'', ''X''], ['''', '''', ''''], ['''', '''', '''']],
                      players := [playerX, botO\<lparr>lastScore := 0, score := 3\<rparr>]\<rparr>)"
    using C3_markCellByNumber [OF scenarioBoard_ok, of 2 "''X''"]
    by (simp add: scenario_eval botO_def)
  from scenarioBoard_ok occupied beyond negative noTurn zero three show ?thesis by blast
qed

lemma cell_number_decodes_in_bounds:
  assumes "0 < gridSize b" "0 \<le> c" "c < gridSize b * gridSize b"
  shows "0 \<le> columnByCellNumber b c" "columnByCellNumber b c < gridSize b"
    "0 \<le> rowByCellNumber b c" "rowByCellNumber b c < gridSize b"
  using assms
  by (simp_all add: columnByCellNumber_def rowByCellNumber_def sdiv_nonneg_eq_div
      smod_nonneg_eq_mod div_lt_square pos_imp_zdiv_nonneg_iff)

text \<open>
  C10. \<open>markCellByNumber\<close> does not look at the marker: on every board with a
  turn-holder and an empty cell \<open>c\<close> in \<open>[0, N\<^sup>2)\<close> (\<open>c\<close> an \<open>int\<close>, as the argument of
  the function is), marking \<open>c\<close> with the empty string returns true and leaves the grid
  as it was, so \<open>c\<close> is still among the available cell numbers, and marking \<open>c\<close>
  again, with any marker, returns true again.
\<close>

theorem C10_empty_marker:
  assumes ok: "board_ok b" and turn: "playerTurn b = Some turn"
    and c: "0 \<le> c" "c < gridSize b * gridSize b" and int: "c \<le> INT_MAX"
    and empty: "grid b ! nat (rowByCellNumber b c) ! nat (columnByCellNumber b c) = ''''"
  shows "\<exists>b'. markCellByNumber b c '''' = Inr (True, b')
      \<and> grid b' = grid b
      \<and> c \<in> set (findAvailableCellNumbers b')
      \<and> (\<forall>mk. \<exists>b''. markCellByNumber b' c mk = Inr (True, b''))"
proof -
  define x where "x = columnByCellNumber b c"
  define y where "y = rowByCellNumber b c"
  have n: "0 < gridSize b" using ok by (simp add: board_ok_def)
  have inb: "0 \<le> x" "x < gridSize b" "0 \<le> y" "y < gridSize b"
    unfolding x_def y_def using cell_number_decodes_in_bounds [OF n c] by simp_all
  have e: "grid b ! nat y ! nat x = ''''" using empty by (simp add: x_def y_def)
  have same: "b = b\<lparr>grid := (grid b)[nat y := (grid b ! nat y)[nat x := '''']]\<rparr>"
    using e by (metis list_update_id Board.surjective Board.update_convs(4))
  from markCellByNumber_placed [OF ok x_def y_def same inb e turn]
  obtain cell :: ConnectedCell where mark: "markCellByNumber b c '''' =
      Inr (True, b\<lparr>players := (players b)[turn :=
              (players b ! turn)\<lparr>lastScore := score (players b ! turn),
                 score := score (players b ! turn) + totalConnected cell\<rparr>]\<rparr>)"
    by blast
  define b1 where "b1 = b\<lparr>players := (players b)[turn :=
              (players b ! turn)\<lparr>lastScore := score (players b ! turn),
                 score := score (players b ! turn) + totalConnected cell\<rparr>]\<rparr>"
  have g1: "grid b1 = grid b" and n1: "gridSize b1 = gridSize b"
    and t1: "playerTurn b1 = Some turn"
    by (simp_all add: b1_def turn)
  have ok1: "board_ok b1"
    using ok by (simp add: board_ok_def b1_def split: option.splits)
  have rowlen: "length (grid b ! nat y) = nat (gridSize b)"
    using ok inb by (intro board_ok_row_length) auto
  have "cellNumberByPosition b1 (int (nat y)) (int (nat x)) = c"
    using cell_position_roundtrip [OF n c(1) int] inb
    by (simp add: cellNumberByPosition_def n1 x_def y_def)
  moreover have "nat y < length (grid b1)" "nat x < length (grid b1 ! nat y)"
    using ok inb rowlen by (simp_all add: g1 board_ok_def)
  moreover have "grid b1 ! nat y ! nat x = ''''" using e by (simp add: g1)
  ultimately have avail: "c \<in> set (findAvailableCellNumbers b1)"
    unfolding set_findAvailableCellNumbers by blast
  have x1: "x = columnByCellNumber b1 c" and y1: "y = rowByCellNumber b1 c"
    by (simp_all add: x_def y_def columnByCellNumber_def rowByCellNumber_def n1)
  have again: "\<exists>b''. markCellByNumber b1 c mk = Inr (True, b'')" for mk
    using markCellByNumber_placed [OF ok1 x1 y1 refl, where mk = mk and turn = turn] inb e t1
    by (auto simp: n1 g1)
  from mark avail again g1 show ?thesis
    unfolding b1_def [symmetric] by blast
qed

theorem C10_empty_marker_witness:
  "board_ok scenarioBoard \<and> playerTurn scenarioBoard = Some 1
   \<and> (0::int) \<le> 2 \<and> (2::int) < gridSize scenarioBoard * gridSize scenarioBoard
   \<and> (2::int) \<le> INT_MAX
   \<and> grid scenarioBoard ! nat (rowByCellNumber scenarioBoard 2)
        ! nat (columnByCellNumber scenarioBoard 2) = ''''
   \<and> (\<exists>b'. markCellByNumber scenarioBoard 2 '''' = Inr (True, b')
        \<and> grid b' = grid scenarioBoard
        \<and> 2 \<in> set (findAvailableCellNumbers b')
        \<and> (\<exists>b''. markCellByNumber b' 2 ''O'' = Inr (True, b'')))"
proof -
  have t: "playerTurn scenarioBoard = Some 1"
    and c: "(0::int) \<le> 2" "(2::int) < gridSize scenarioBoard * gridSize scenarioBoard"
    and i: "(2::int) \<le> INT_MAX"
    and e: "grid scenarioBoard ! nat (rowByCellNumber scenarioBoard 2)
        ! nat (columnByCellNumber scenarioBoard 2) = ''''"
    by (simp_all add: scenarioBoard_def rowByCellNumber_def columnByCellNumber_def
        signed_divide_int_def signed_modulo_int_def INT_MAX_def)
  from C10_empty_marker [OF scenarioBoard_ok t c i e]
  have "\<exists>b'. markCellByNumber scenarioBoard 2 '''' = Inr (True, b')
        \<and> grid b' = grid scenarioBoard
        \<and> 2 \<in> set (findAvailableCellNumbers b')
        \<and> (\<exists>b''. markCellByNumber b' 2 ''O'' = Inr (True, b''))"
    by blast
  with scenarioBoard_ok t c i e show ?thesis by blast
qed

section \<open>The result of a game\<close>


















section \<open>The turn\<close>

text \<open>
  \<open>Board::togglePlayerTurn\<close>. The argument \<open>randomIndex\<close> is the number that
  \<open>randomIndex(engine)\<close> draws, a value of the distribution on
  \<open>[0, max(0, players.size() - 1)]\<close>; the draw is made only when no turn-holder is
  set. The comparison with \<open>players.size()\<close> is made in \<open>size_t\<close>.
\<close>

definition togglePlayerTurn :: "int \<Rightarrow> Board \<Rightarrow> error + Board" where
  "togglePlayerTurn randomIndex b =
     (let playerTurnIndex =
            (case playerTurn b of None \<Rightarrow> - 1 | Some turn \<Rightarrow> number (players b ! turn) - 1);
          playerTurnIndex' =
            (if playerTurnIndex = - 1 then randomIndex
             else if size_t (playerTurnIndex + 1) \<ge> int (length (players b)) then 0
             else playerTurnIndex + 1)
      in case at (players b) playerTurnIndex' of
           Inl e \<Rightarrow> Inl e
         | Inr p \<Rightarrow> Inr (b\<lparr>playerTurn := Some (nat playerTurnIndex')\<rparr>))"

text \<open>
  Successive calls of \<open>togglePlayerTurn\<close>, one for each drawn number of the list, and
  the turn-holder after each call.
\<close>

fun togglePlayerTurn_calls :: "int list \<Rightarrow> Board \<Rightarrow> error + nat option list" where
  "togglePlayerTurn_calls [] b = Inr []"
| "togglePlayerTurn_calls (randomIndex # rest) b =
     (case togglePlayerTurn randomIndex b of
        Inl e \<Rightarrow> Inl e
      | Inr b' \<Rightarrow>
          (case togglePlayerTurn_calls rest b' of
             Inl e \<Rightarrow> Inl e
           | Inr turns \<Rightarrow> Inr (playerTurn b' # turns)))"

definition numberedInOrder :: "Player list \<Rightarrow> bool" where
  "numberedInOrder ps \<longleftrightarrow> (\<forall>i < length ps. number (ps ! i) = int i + 1)"

lemma size_t_small: "0 \<le> i \<Longrightarrow> i < 2 ^ 64 \<Longrightarrow> size_t i = i"
  by (simp add: size_t_def)

lemma togglePlayerTurn_first:
  assumes "players b \<noteq> []" "playerTurn b = None"
    "0 \<le> rnd" "rnd \<le> max 0 (int (length (players b)) - 1)"
  shows "nat rnd < length (players b)"
    and "togglePlayerTurn rnd b = Inr (b\<lparr>playerTurn := Some (nat rnd)\<rparr>)"
proof -
  have "0 < length (players b)" using assms(1) by simp
  then show "nat rnd < length (players b)" using assms(3,4) by simp
  then show "togglePlayerTurn rnd b = Inr (b\<lparr>playerTurn := Some (nat rnd)\<rparr>)"
    using assms(2,3) by (simp add: togglePlayerTurn_def at_def)
qed

lemma togglePlayerTurn_next:
  assumes "numberedInOrder (players b)" "int (length (players b)) \<le> INT_MAX"
    "playerTurn b = Some i" "i < length (players b)"
  shows "togglePlayerTurn rnd b = Inr (b\<lparr>playerTurn := Some ((i + 1) mod length (players b))\<rparr>)"
proof -
  let ?n = "length (players b)"
  have num: "number (players b ! i) - 1 = int i"
    using assms by (simp add: numberedInOrder_def)
  have "int i + 1 < 2 ^ 64"
    using assms(2,4) by (simp add: INT_MAX_def)
  then have st: "size_t (int i + 1) = int i + 1"
    by (simp add: size_t_small)
  show ?thesis
  proof (cases "i + 1 < ?n")
    case True
    then have "(i + 1) mod ?n = i + 1" by simp
    moreover have "nat (int i + 1) = i + 1" by simp
    ultimately show ?thesis
      using True assms(3) num st
      by (simp add: togglePlayerTurn_def at_def Let_def)
  next
    case False
    then have "i + 1 = ?n" using assms(4) by simp
    then have "(i + 1) mod ?n = 0" by simp
    moreover have "players b \<noteq> []" using assms(4) by auto
    ultimately show ?thesis
      using False assms(3,4) num st
      by (simp add: togglePlayerTurn_def at_def Let_def)
  qed
qed

lemma rotation_eq:
  assumes "x \<le> y" "y < n" "(a + x) mod n = (a + y) mod (n::nat)"
  shows "x = y"
proof -
  have "(a + y) mod n = (a + x) mod n \<longleftrightarrow> n dvd (a + y) - (a + x)"
    using assms(1) by (intro mod_eq_dvd_iff_nat) simp
  then have "n dvd (a + y) - (a + x)"
    using assms(3) by simp
  then have "n dvd y - x" by simp
  moreover have "y - x < n" using assms(2) by simp
  ultimately have "y - x = 0" using dvd_imp_le [of n "y - x"] by (cases "y - x = 0") simp_all
  with assms(1) show ?thesis by simp
qed

lemma rotation_inj: "inj_on (\<lambda>k. (a + k) mod n) {0 ..< n::nat}"
proof (rule inj_onI)
  fix x y assume "x \<in> {0 ..< n}" "y \<in> {0 ..< n}" "(a + x) mod n = (a + y) mod n"
  then show "x = y"
    using rotation_eq [of x y n a] rotation_eq [of y x n a]
    by (cases "x \<le> y") auto
qed

lemma rotation_visits_all:
  assumes "0 < (n::nat)"
  shows "distinct (map (\<lambda>k. Some ((a + k) mod n)) [0 ..< n])"
    and "set (map (\<lambda>k. Some ((a + k) mod n)) [0 ..< n]) = Some ` {0 ..< n}"
proof -
  let ?f = "\<lambda>k. (a + k) mod n"
  have inj: "inj_on ?f {0 ..< n}" by (rule rotation_inj)
  have "inj_on (\<lambda>k. Some (?f k)) {0 ..< n}"
  proof (rule inj_onI)
    fix x y assume "x \<in> {0 ..< n}" "y \<in> {0 ..< n}" "Some (?f x) = Some (?f y)"
    then show "x = y" using inj_onD [OF inj, of x y] by simp
  qed
  then show "distinct (map (\<lambda>k. Some ((a + k) mod n)) [0 ..< n])"
    by (simp add: distinct_map)
  have sub: "?f ` {0 ..< n} \<subseteq> {0 ..< n}"
  proof
    fix v assume "v \<in> ?f ` {0 ..< n}"
    then obtain k where "v = (a + k) mod n" by blast
    then show "v \<in> {0 ..< n}" using assms by simp
  qed
  have "card (?f ` {0 ..< n}) = card {0 ..< n}" using inj by (rule card_image)
  then have "card {0 ..< n} \<le> card (?f ` {0 ..< n})" by simp
  with sub have eq: "?f ` {0 ..< n} = {0 ..< n}"
    by (intro card_seteq) simp_all
  have "set (map (\<lambda>k. Some (?f k)) [0 ..< n]) = (\<lambda>k. Some (?f k)) ` {0 ..< n}"
    by (simp only: set_map set_upt)
  also have "\<dots> = Some ` (?f ` {0 ..< n})"
    by (rule image_image [symmetric])
  also have "\<dots> = Some ` {0 ..< n}"
    by (simp only: eq)
  finally show "set (map (\<lambda>k. Some ((a + k) mod n)) [0 ..< n]) = Some ` {0 ..< n}" .
qed

lemma togglePlayerTurn_calls_from:
  "numberedInOrder (players b) \<Longrightarrow> int (length (players b)) \<le> INT_MAX \<Longrightarrow>
   playerTurn b = Some i \<Longrightarrow> i < length (players b) \<Longrightarrow>
   togglePlayerTurn_calls rnds b
     = Inr (map (\<lambda>k. Some ((i + 1 + k) mod length (players b))) [0 ..< length rnds])"
proof (induction rnds arbitrary: b i)
  case Nil
  then show ?case by simp
next
  case (Cons rnd rnds)
  let ?n = "length (players b)"
  let ?b' = "b\<lparr>playerTurn := Some ((i + 1) mod ?n)\<rparr>"
  have step: "togglePlayerTurn rnd b = Inr ?b'"
    using Cons.prems by (rule togglePlayerTurn_next)
  have n: "0 < ?n" using Cons.prems(4) by (cases "players b") simp_all
  have "togglePlayerTurn_calls rnds ?b'
      = Inr (map (\<lambda>k. Some (((i + 1) mod ?n + 1 + k) mod length (players ?b'))) [0 ..< length rnds])"
    using Cons.prems n by (intro Cons.IH) simp_all
  moreover have "((i + 1) mod ?n + 1 + k) mod ?n = (i + 1 + Suc k) mod ?n" for k
  proof -
    have "((i + 1) mod ?n + (1 + k)) mod ?n = ((i + 1) + (1 + k)) mod ?n"
      by (rule mod_add_left_eq)
    then show ?thesis by (simp add: add.assoc)
  qed
  moreover have "[0 ..< length (rnd # rnds)] = 0 # map Suc [0 ..< length rnds]"
  proof -
    have "[0 ..< Suc (length rnds)] = 0 # [Suc 0 ..< Suc (length rnds)]"
      by (rule upt_conv_Cons) simp
    also have "[Suc 0 ..< Suc (length rnds)] = map Suc [0 ..< length rnds]"
      by (rule map_Suc_upt [symmetric])
    finally show ?thesis by simp
  qed
  ultimately show ?case
    using step by (simp only: togglePlayerTurn_calls.simps sum.case list.map map_map comp_def
        Board.simps Board.select_convs Board.update_convs) simp
qed

text \<open>
  C7. On every board whose \<open>N \<ge> 1\<close> players are numbered \<open>1..N\<close> in list order
  (\<open>N\<close> an \<open>int\<close>): with no turn-holder, \<open>togglePlayerTurn\<close> makes the drawn index,
  a number of \<open>[0, N)\<close>, the turn-holder; with the turn-holder at index \<open>i\<close> it makes
  the player at index \<open>(i + 1) mod N\<close> the turn-holder. So \<open>N + 1\<close> successive calls
  from the unset state visit every index exactly once in the first \<open>N\<close> calls, and
  the next call is back at the first pick.
\<close>

theorem C7_togglePlayerTurn:
  assumes "players b \<noteq> []" and "numberedInOrder (players b)"
    and "int (length (players b)) \<le> INT_MAX"
  shows "(playerTurn b = None \<and> 0 \<le> rnd \<and> rnd \<le> max 0 (int (length (players b)) - 1) \<longrightarrow>
            nat rnd < length (players b)
            \<and> togglePlayerTurn rnd b = Inr (b\<lparr>playerTurn := Some (nat rnd)\<rparr>))
       \<and> (\<forall>i. playerTurn b = Some i \<and> i < length (players b) \<longrightarrow>
            togglePlayerTurn rnd b = Inr (b\<lparr>playerTurn := Some ((i + 1) mod length (players b))\<rparr>))
       \<and> (playerTurn b = None \<and> 0 \<le> rnd \<and> rnd \<le> max 0 (int (length (players b)) - 1)
            \<and> length rnds = length (players b) \<longrightarrow>
            (\<exists>turns. togglePlayerTurn_calls (rnd # rnds) b = Inr turns
               \<and> length turns = length (players b) + 1
               \<and> hd turns = Some (nat rnd)
               \<and> distinct (butlast turns)
               \<and> set (butlast turns) = Some ` {0 ..< length (players b)}
               \<and> last turns = hd turns))"
proof (intro conjI impI allI)
  assume "playerTurn b = None \<and> 0 \<le> rnd \<and> rnd \<le> max 0 (int (length (players b)) - 1)"
  then show "nat rnd < length (players b)"
    and "togglePlayerTurn rnd b = Inr (b\<lparr>playerTurn := Some (nat rnd)\<rparr>)"
    using togglePlayerTurn_first [OF assms(1), of rnd] by simp_all
next
  fix i assume "playerTurn b = Some i \<and> i < length (players b)"
  then show "togglePlayerTurn rnd b = Inr (b\<lparr>playerTurn := Some ((i + 1) mod length (players b))\<rparr>)"
    using togglePlayerTurn_next [OF assms(2,3)] by simp
next
  let ?n = "length (players b)"
  let ?r = "nat rnd"
  let ?b1 = "b\<lparr>playerTurn := Some ?r\<rparr>"
  let ?h = "\<lambda>k. Some ((?r + k) mod ?n)"
  assume a: "playerTurn b = None \<and> 0 \<le> rnd \<and> rnd \<le> max 0 (int ?n - 1) \<and> length rnds = ?n"
  then have r: "?r < ?n" and first: "togglePlayerTurn rnd b = Inr ?b1"
    using togglePlayerTurn_first [OF assms(1), of rnd] by simp_all
  have n: "0 < ?n" using assms(1) by simp
  have "togglePlayerTurn_calls rnds ?b1
      = Inr (map (\<lambda>k. Some ((?r + 1 + k) mod length (players ?b1))) [0 ..< length rnds])"
    using assms(2,3) r by (intro togglePlayerTurn_calls_from) simp_all
  then have rest: "togglePlayerTurn_calls rnds ?b1 = Inr (map (\<lambda>k. ?h (Suc k)) [0 ..< ?n])"
    using a by simp
  have "[0 ..< Suc ?n] = 0 # [Suc 0 ..< Suc ?n]"
    by (rule upt_conv_Cons) simp
  also have "[Suc 0 ..< Suc ?n] = map Suc [0 ..< ?n]"
    by (rule map_Suc_upt [symmetric])
  finally have "map ?h [0 ..< Suc ?n] = ?h 0 # map (\<lambda>k. ?h (Suc k)) [0 ..< ?n]"
    by (simp only: list.map map_map comp_def)
  moreover have "?h 0 = Some ?r" using r by simp
  ultimately have calls: "togglePlayerTurn_calls (rnd # rnds) b = Inr (map ?h [0 ..< Suc ?n])"
    using first rest by simp
  have snoc: "map ?h [0 ..< Suc ?n] = map ?h [0 ..< ?n] @ [?h ?n]"
    by simp
  have len: "length (map ?h [0 ..< Suc ?n]) = ?n + 1" by simp
  have hd0: "hd (map ?h [0 ..< Suc ?n]) = Some ?r"
    using r by (simp add: hd_map upt_conv_Cons del: upt_Suc)
  have bl: "butlast (map ?h [0 ..< Suc ?n]) = map ?h [0 ..< ?n]"
    unfolding snoc by (rule butlast_snoc)
  have la: "last (map ?h [0 ..< Suc ?n]) = Some ?r"
    unfolding snoc using r by simp
  have "distinct (map ?h [0 ..< ?n])" and "set (map ?h [0 ..< ?n]) = Some ` {0 ..< ?n}"
    using rotation_visits_all [OF n, of ?r] by simp_all
  with calls len hd0 bl la
  show "\<exists>turns. togglePlayerTurn_calls (rnd # rnds) b = Inr turns
               \<and> length turns = ?n + 1
               \<and> hd turns = Some ?r
               \<and> distinct (butlast turns)
               \<and> set (butlast turns) = Some ` {0 ..< ?n}
               \<and> last turns = hd turns"
    by (intro exI [of _ "map ?h [0 ..< Suc ?n]"]) (simp only: simp_thms)
qed

theorem C7_togglePlayerTurn_witness:
  "players scenarioBoard \<noteq> [] \<and> numberedInOrder (players scenarioBoard)
   \<and> int (length (players scenarioBoard)) \<le> INT_MAX
   \<and> togglePlayerTurn 1 (scenarioBoard\<lparr>playerTurn := None\<rparr>) = Inr scenarioBoard
   \<and> togglePlayerTurn 0 scenarioBoard = Inr (scenarioBoard\<lparr>playerTurn := Some 0\<rparr>)
   \<and> togglePlayerTurn_calls [1, 0, 0] (scenarioBoard\<lparr>playerTurn := None\<rparr>)
        = Inr [Some 1, Some 0, Some 1]"
proof -
  let ?b = "scenarioBoard\<lparr>playerTurn := None\<rparr>"
  have ne: "players scenarioBoard \<noteq> []" "players ?b \<noteq> []"
    and num: "numberedInOrder (players scenarioBoard)" "numberedInOrder (players ?b)"
    and len: "int (length (players scenarioBoard)) \<le> INT_MAX" "int (length (players ?b)) \<le> INT_MAX"
    by (simp_all add: scenarioBoard_def numberedInOrder_def playerX_def botO_def INT_MAX_def less_Suc_eq)
  note unset = C7_togglePlayerTurn [OF ne(2) num(2) len(2), of 1 "[0, 0]"]
  note set = C7_togglePlayerTurn [OF ne(1) num(1) len(1), of 0 "[]"]
  have two: "length (players scenarioBoard) = 2" "playerTurn scenarioBoard = Some 1"
    by (simp_all add: scenarioBoard_def)
  have same: "?b\<lparr>playerTurn := Some (nat 1)\<rparr> = scenarioBoard"
    by (simp add: scenarioBoard_def)
  from unset have first: "togglePlayerTurn 1 ?b = Inr scenarioBoard"
    by (simp add: two same)
  from set have nxt: "togglePlayerTurn 0 scenarioBoard = Inr (scenarioBoard\<lparr>playerTurn := Some 0\<rparr>)"
    by (simp add: two)
  from unset obtain turns where t: "togglePlayerTurn_calls [1, 0, 0] ?b = Inr turns"
    "length turns = 3" "hd turns = Some 1" "distinct (butlast turns)"
    "set (butlast turns) = Some ` {0 ..< 2}" "last turns = hd turns"
    by (auto simp: two)
  from t(2) obtain t0 t1 t2 where ts: "turns = [t0, t1, t2]"
    by (metis (no_types, lifting) length_0_conv length_Suc_conv numeral_3_eq_3)
  from t(3,4,5,6) have "turns = [Some 1, Some 0, Some 1]"
    unfolding ts by (auto simp: atLeastLessThan_def lessThan_def atLeast_def image_def set_eq_iff)
  with t(1) have calls: "togglePlayerTurn_calls [1, 0, 0] ?b = Inr [Some 1, Some 0, Some 1]"
    by simp
  from ne(1) num(1) len(1) first nxt calls show ?thesis by blast
qed

section \<open>The bot\<close>

subsection \<open>Turn distance\<close>

text \<open>
  \<open>Bot::_compareNextTurn\<close>. The function takes and returns references to players; a
  reference is the index of the player in the player list \<open>ps\<close> of the board, and
  \<open>botNumber\<close> is \<open>this->_number\<close>.
\<close>

definition compareNextTurn :: "Player list \<Rightarrow> int \<Rightarrow> nat \<Rightarrow> nat \<Rightarrow> nat" where
  "compareNextTurn ps botNumber player1 player2 =
     (if (number (ps ! player1) < number (ps ! player2) \<and> number (ps ! player2) < botNumber)
         \<or> (number (ps ! player2) < botNumber \<and> botNumber < number (ps ! player1))
         \<or> (botNumber < number (ps ! player1) \<and> number (ps ! player1) < number (ps ! player2))
         \<or> botNumber = number (ps ! player2)
      then player1 else player2)"

text \<open>
  The turn distance of a player from the bot: the number of turns after the bot's until
  the player moves, in the cyclic order of \<open>playerCount\<close> players.
\<close>

definition turnDistance :: "int \<Rightarrow> int \<Rightarrow> int \<Rightarrow> int" where
  "turnDistance playerCount botNumber playerNumber = (playerNumber - botNumber) mod playerCount"

lemma turnDistance_eq:
  assumes "1 \<le> a" "a \<le> n" "1 \<le> b" "b \<le> n" "a \<noteq> b"
  shows "turnDistance n b a = (if b < a then a - b else a - b + n)"
proof (cases "b < a")
  case True
  then have "0 \<le> a - b" "a - b < n" using assms by simp_all
  then show ?thesis using True by (simp add: turnDistance_def)
next
  case False
  then have "0 \<le> a - b + n" "a - b + n < n" using assms by simp_all
  then have "(a - b + n) mod n = a - b + n" by (rule mod_pos_pos_trivial)
  moreover have "(a - b + n) mod n = (a - b) mod n" by simp
  ultimately have "(a - b) mod n = a - b + n" by simp
  then show ?thesis using False by (simp add: turnDistance_def)
qed

text \<open>
  C6. For the players of a game of \<open>playerCount\<close> players (numbers in
  \<open>1..playerCount\<close>), a bot and two candidates whose numbers differ from each other and
  from the bot's: \<open>_compareNextTurn\<close> returns the candidate with the smaller turn
  distance \<open>(number - botNumber) mod playerCount\<close>, the one who moves sooner after the
  bot, and the two distances differ. In the special case that the second candidate's
  number is the bot's own number, it returns the first candidate.
\<close>

theorem C6_compareNextTurn:
  "(1 \<le> botNumber \<and> botNumber \<le> playerCount
      \<and> 1 \<le> number (ps ! player1) \<and> number (ps ! player1) \<le> playerCount
      \<and> 1 \<le> number (ps ! player2) \<and> number (ps ! player2) \<le> playerCount
      \<and> number (ps ! player1) \<noteq> number (ps ! player2)
      \<and> number (ps ! player1) \<noteq> botNumber \<and> number (ps ! player2) \<noteq> botNumber
    \<longrightarrow> turnDistance playerCount botNumber (number (ps ! player1))
          \<noteq> turnDistance playerCount botNumber (number (ps ! player2))
        \<and> compareNextTurn ps botNumber player1 player2 =
          (if turnDistance playerCount botNumber (number (ps ! player1))
                < turnDistance playerCount botNumber (number (ps ! player2))
           then player1 else player2))
   \<and> (number (ps ! player2) = botNumber \<longrightarrow> compareNextTurn ps botNumber player1 player2 = player1)"
proof (intro conjI impI)
  assume "number (ps ! player2) = botNumber"
  then show "compareNextTurn ps botNumber player1 player2 = player1"
    by (simp add: compareNextTurn_def)
next
  assume a: "1 \<le> botNumber \<and> botNumber \<le> playerCount
      \<and> 1 \<le> number (ps ! player1) \<and> number (ps ! player1) \<le> playerCount
      \<and> 1 \<le> number (ps ! player2) \<and> number (ps ! player2) \<le> playerCount
      \<and> number (ps ! player1) \<noteq> number (ps ! player2)
      \<and> number (ps ! player1) \<noteq> botNumber \<and> number (ps ! player2) \<noteq> botNumber"
  have d1: "turnDistance playerCount botNumber (number (ps ! player1))
      = (if botNumber < number (ps ! player1) then number (ps ! player1) - botNumber
         else number (ps ! player1) - botNumber + playerCount)"
    using a by (intro turnDistance_eq) simp_all
  have d2: "turnDistance playerCount botNumber (number (ps ! player2))
      = (if botNumber < number (ps ! player2) then number (ps ! player2) - botNumber
         else number (ps ! player2) - botNumber + playerCount)"
    using a by (intro turnDistance_eq) simp_all
  show "turnDistance playerCount botNumber (number (ps ! player1))
          \<noteq> turnDistance playerCount botNumber (number (ps ! player2))"
    unfolding d1 d2 using a by (simp split: if_splits)
  show "compareNextTurn ps botNumber player1 player2 =
          (if turnDistance playerCount botNumber (number (ps ! player1))
                < turnDistance playerCount botNumber (number (ps ! player2))
           then player1 else player2)"
    unfolding d1 d2 compareNextTurn_def using a by (simp split: if_splits)
qed

text \<open>
  The example of the comment on \<open>_compareNextTurn\<close>: five players, the third one the
  bot; of the second and the fourth player, the fourth moves sooner after the bot.
\<close>

definition fivePlayers :: "Player list" where
  "fivePlayers =
     [\<lparr>kind = Human, number = 1, marker = ''A'', score = 0, lastScore = 0\<rparr>,
      \<lparr>kind = Human, number = 2, marker = ''B'', score = 0, lastScore = 0\<rparr>,
      \<lparr>kind = Computer, number = 3, marker = ''C'', score = 0, lastScore = 0\<rparr>,
      \<lparr>kind = Human, number = 4, marker = ''D'', score = 0, lastScore = 0\<rparr>,
      \<lparr>kind = Human, number = 5, marker = ''E'', score = 0, lastScore = 0\<rparr>]"

theorem C6_compareNextTurn_witness:
  "turnDistance 5 3 (number (fivePlayers ! 1)) = 4
   \<and> turnDistance 5 3 (number (fivePlayers ! 3)) = 1
   \<and> compareNextTurn fivePlayers 3 1 3 = 3
   \<and> compareNextTurn fivePlayers 3 3 1 = 3
   \<and> number (fivePlayers ! 2) = 3
   \<and> compareNextTurn fivePlayers 3 1 2 = 1"
proof -
  have d: "turnDistance 5 3 (number (fivePlayers ! 1)) = 4"
    "turnDistance 5 3 (number (fivePlayers ! 3)) = 1"
    and n: "number (fivePlayers ! 2) = 3"
    by (simp_all add: turnDistance_def fivePlayers_def)
  have c1: "compareNextTurn fivePlayers 3 1 3 = 3"
    using C6_compareNextTurn [of 3 5 fivePlayers 1 3, THEN conjunct1] d
    by (simp add: fivePlayers_def)
  have c2: "compareNextTurn fivePlayers 3 3 1 = 3"
    using C6_compareNextTurn [of 3 5 fivePlayers 3 1, THEN conjunct1] d
    by (simp add: fivePlayers_def)
  have c3: "compareNextTurn fivePlayers 3 1 2 = 1"
    using C6_compareNextTurn [of 3 5 fivePlayers 1 2, THEN conjunct2] n
    by simp
  from d n c1 c2 c3 show ?thesis by simp
qed

subsection \<open>Ranking the available cells\<close>

text \<open>The comparison that \<open>_rankAvailableCells\<close> passes to \<open>std::sort\<close>.\<close>

definition rankBefore :: "ConnectedCell \<Rightarrow> ConnectedCell \<Rightarrow> bool" where
  "rankBefore a b =
     (let aChains = verticalChain a + horizontalChain a + diagonalLeftChain a + diagonalRightChain a;
          bChains = verticalChain b + horizontalChain b + diagonalLeftChain b + diagonalRightChain b
      in totalConnected a > totalConnected b
         \<or> (totalConnected a = totalConnected b \<and> aChains > bChains))"

text \<open>
  \<open>std::sort\<close> is not stable: it returns some permutation of its input in which no
  element is ranked before an earlier one. The bot is therefore a function of the sorting
  function \<open>sorter\<close>, of which only this contract is known.
\<close>

definition is_std_sort :: "(ConnectedCell list \<Rightarrow> ConnectedCell list) \<Rightarrow> bool" where
  "is_std_sort sorter =
     (\<forall>cells. mset (sorter cells) = mset cells
        \<and> sorted_wrt (\<lambda>a b. \<not> rankBefore b a) (sorter cells))"

text \<open>The loop of \<open>_rankAvailableCells\<close> that collects the connected cells.\<close>

fun collectConnectedCells :: "Board \<Rightarrow> string \<Rightarrow> int list \<Rightarrow> error + ConnectedCell list" where
  "collectConnectedCells b mk [] = Inr []"
| "collectConnectedCells b mk (cell # rest) =
     (if gridSize b = 0 then Inl DivisionByZero
      else (case findConnectedCell b (rowByCellNumber b cell) (columnByCellNumber b cell) mk INT_MAX of
        Inl e \<Rightarrow> Inl e
      | Inr connectedCell \<Rightarrow>
          (case collectConnectedCells b mk rest of
             Inl e \<Rightarrow> Inl e
           | Inr cells \<Rightarrow> Inr (connectedCell # cells))))"

text \<open>
  \<open>Bot::_rankAvailableCells\<close>. The weak pointer to the screen gives the board, or
  nothing when it has expired.
\<close>

definition rankAvailableCells ::
  "(ConnectedCell list \<Rightarrow> ConnectedCell list) \<Rightarrow> Board option \<Rightarrow> Player \<Rightarrow> int list
     \<Rightarrow> error + ConnectedCell list" where
  "rankAvailableCells sorter screen player availableCellNumbers =
     (case screen of
        None \<Rightarrow> Inl RuntimeError
      | Some b \<Rightarrow>
          (case collectConnectedCells b (marker player) availableCellNumbers of
             Inl e \<Rightarrow> Inl e
           | Inr cells \<Rightarrow> Inr (sorter cells)))"

subsection \<open>The cell selection of the bot\<close>

text \<open>
  The first loop of \<open>Bot::requireCellSelection\<close>, which searches the player to block,
  over the values of \<open>n\<close> up to the loop bound; it ends early at the index of the bot.
  The state is \<open>playerToBlockCells\<close> and the pointer \<open>playerToBlock\<close> (an index of the
  player list). The test \<open>&playerShortestNextTurn == &*player\<close> compares references.
\<close>

fun searchPlayerToBlock ::
  "(ConnectedCell list \<Rightarrow> ConnectedCell list) \<Rightarrow> Board \<Rightarrow> Player \<Rightarrow> int list \<Rightarrow> int list
     \<Rightarrow> ConnectedCell list \<times> nat option \<Rightarrow> error + (ConnectedCell list \<times> nat option)" where
  "searchPlayerToBlock sorter b self availableCells [] state = Inr state"
| "searchPlayerToBlock sorter b self availableCells (n # ns) (playerToBlockCells, playerToBlock) =
     (if n smod int (length (players b)) = number self - 1 then Inr (playerToBlockCells, playerToBlock)
      else (case at (players b) (n smod int (length (players b))) of
        Inl e \<Rightarrow> Inl e
      | Inr player \<Rightarrow>
          (case rankAvailableCells sorter (Some b) player availableCells of
             Inl e \<Rightarrow> Inl e
           | Inr playerCells \<Rightarrow>
               (case (if playerToBlockCells = [] then Inr True
                      else (case at playerCells 0 of
                        Inl e \<Rightarrow> Inl e
                      | Inr playerTop \<Rightarrow>
                          (case at playerToBlockCells 0 of
                             Inl e \<Rightarrow> Inl e
                           | Inr blockTop \<Rightarrow>
                               Inr (totalConnected playerTop > totalConnected blockTop
                                 \<or> (totalConnected playerTop = totalConnected blockTop
                                     \<and> (case playerToBlock of
                                           None \<Rightarrow> True
                                         | Some blocked \<Rightarrow>
                                             compareNextTurn (players b) (number self) blocked
                                               (nat (n smod int (length (players b))))
                                             = nat (n smod int (length (players b))))))))) of
                  Inl e \<Rightarrow> Inl e
                | Inr True \<Rightarrow>
                    searchPlayerToBlock sorter b self availableCells ns
                      (playerCells, Some (nat (n smod int (length (players b)))))
                | Inr False \<Rightarrow>
                    searchPlayerToBlock sorter b self availableCells ns
                      (playerToBlockCells, playerToBlock)))))"

text \<open>
  The inner loop over the ranked cells of the bot, for one cell of the player to block:
  the new \<open>bestCell\<close> and \<open>isBestCellFound\<close>.
\<close>

fun searchSharedCell ::
  "ConnectedCell \<Rightarrow> int \<Rightarrow> ConnectedCell list \<Rightarrow> ConnectedCell option
     \<Rightarrow> ConnectedCell option \<times> bool" where
  "searchSharedCell playerCell topTotal [] bestCell = (bestCell, False)"
| "searchSharedCell playerCell topTotal (rankedCell # rest) bestCell =
     (if totalConnected playerCell = topTotal
         \<and> totalConnected playerCell = totalConnected rankedCell
      then (if row playerCell = row rankedCell \<and> column playerCell = column rankedCell
            then (Some playerCell, True)
            else searchSharedCell playerCell topTotal rest (Some playerCell))
      else (bestCell, False))"

text \<open>
  The loop over the cells of the player to block; \<open>topTotal\<close> is
  \<open>rankedCells.at(0).totalConnected\<close>.
\<close>

fun searchBlockingCell ::
  "ConnectedCell list \<Rightarrow> int \<Rightarrow> ConnectedCell list \<Rightarrow> ConnectedCell option
     \<Rightarrow> ConnectedCell option" where
  "searchBlockingCell rankedCells topTotal [] bestCell = bestCell"
| "searchBlockingCell rankedCells topTotal (playerCell # rest) bestCell =
     (if totalConnected playerCell = 0 then bestCell
      else if totalConnected playerCell > topTotal then Some playerCell
      else (case searchSharedCell playerCell topTotal rankedCells bestCell of
              (bestCell', True) \<Rightarrow> bestCell'
            | (bestCell', False) \<Rightarrow> searchBlockingCell rankedCells topTotal rest bestCell'))"

text \<open>
  \<open>Bot::requireCellSelection\<close>. \<open>self\<close> is the bot, \<open>randomIndex\<close> the number that
  the last statement draws from \<open>[0, max(0, availableCells.size() - 1)]\<close>. The remainder
  by a player count of zero is undefined in C++ and is an error here.
\<close>

definition requireCellSelection ::
  "(ConnectedCell list \<Rightarrow> ConnectedCell list) \<Rightarrow> int \<Rightarrow> Board option \<Rightarrow> Player \<Rightarrow> error + int" where
  "requireCellSelection sorter randomIndex screen self =
     (case screen of
        None \<Rightarrow> Inl RuntimeError
      | Some b \<Rightarrow>
          (let totalPlayers = int (length (players b));
               availableCells = findAvailableCellNumbers b
           in case rankAvailableCells sorter screen self availableCells of
                Inl e \<Rightarrow> Inl e
              | Inr rankedCells \<Rightarrow>
                  if totalPlayers = 0 then Inl DivisionByZero
                  else (case searchPlayerToBlock sorter b self availableCells
                               [number self smod totalPlayers ..
                                totalPlayers + number self smod totalPlayers - 1] ([], None) of
                    Inl e \<Rightarrow> Inl e
                  | Inr (playerToBlockCells, playerToBlock) \<Rightarrow>
                      (case at rankedCells 0 of
                         Inl e \<Rightarrow> Inl e
                       | Inr topCell \<Rightarrow>
                           (case searchBlockingCell rankedCells (totalConnected topCell) playerToBlockCells
                                   (if totalConnected topCell \<ge> 3 then Some topCell else None) of
                              Some bestCell \<Rightarrow>
                                Inr (cellNumberByPosition b (row bestCell) (column bestCell))
                            | None \<Rightarrow>
                                if verticalChain topCell \<ge> 1 \<or> horizontalChain topCell \<ge> 1
                                   \<or> diagonalLeftChain topCell \<ge> 1 \<or> diagonalRightChain topCell \<ge> 1
                                then Inr (cellNumberByPosition b (row topCell) (column topCell))
                                else at availableCells randomIndex)))))"

subsection \<open>Sorting functions\<close>

lemma rankBefore_irrefl: "\<not> rankBefore a a"
  by (simp add: rankBefore_def)

lemma rankBefore_asym: "rankBefore a b \<Longrightarrow> \<not> rankBefore b a"
  by (auto simp: rankBefore_def Let_def)

lemma not_rankBefore_trans: "\<not> rankBefore b a \<Longrightarrow> \<not> rankBefore c b \<Longrightarrow> \<not> rankBefore c a"
  by (auto simp: rankBefore_def Let_def)

text \<open>
  The first element of a sorted list of cells: an input cell before which no input cell
  is ranked.
\<close>

lemma std_sort_first:
  assumes "is_std_sort sorter" "cells \<noteq> []"
  shows "\<exists>first rest. sorter cells = first # rest \<and> first \<in> set cells
      \<and> (\<forall>d \<in> set cells. \<not> rankBefore d first)"
proof -
  have m: "mset (sorter cells) = mset cells"
    and s: "sorted_wrt (\<lambda>a b. \<not> rankBefore b a) (sorter cells)"
    using assms(1) by (simp_all add: is_std_sort_def)
  from m have sets: "set (sorter cells) = set cells" by (rule mset_eq_setD)
  with assms(2) have "sorter cells \<noteq> []" by auto
  then obtain first rest where fr: "sorter cells = first # rest"
    by (cases "sorter cells") auto
  have "\<not> rankBefore d first" if "d \<in> set cells" for d
  proof -
    from that sets fr have "d = first \<or> d \<in> set rest" by auto
    then show ?thesis using s fr by (auto simp: rankBefore_irrefl)
  qed
  moreover have "first \<in> set cells" using sets fr by auto
  ultimately show ?thesis using fr by blast
qed

text \<open>One sorting function with the contract of \<open>std::sort\<close>: sorting by insertion.\<close>

fun insertCell :: "ConnectedCell \<Rightarrow> ConnectedCell list \<Rightarrow> ConnectedCell list" where
  "insertCell x [] = [x]"
| "insertCell x (y # ys) = (if rankBefore x y then x # y # ys else y # insertCell x ys)"

fun insertionSort :: "ConnectedCell list \<Rightarrow> ConnectedCell list" where
  "insertionSort [] = []"
| "insertionSort (x # xs) = insertCell x (insertionSort xs)"

lemma mset_insertCell: "mset (insertCell x ys) = add_mset x (mset ys)"
  by (induction ys) auto

lemma set_insertCell: "set (insertCell x ys) = insert x (set ys)"
  by (induction ys) auto

lemma sorted_insertCell:
  "sorted_wrt (\<lambda>a b. \<not> rankBefore b a) ys \<Longrightarrow> sorted_wrt (\<lambda>a b. \<not> rankBefore b a) (insertCell x ys)"
proof (induction ys)
  case Nil
  then show ?case by simp
next
  case (Cons y ys)
  show ?case
  proof (cases "rankBefore x y")
    case True
    then have "\<not> rankBefore y x" by (rule rankBefore_asym)
    moreover have "\<not> rankBefore z x" if "z \<in> set ys" for z
    proof -
      have "\<not> rankBefore z y" using Cons.prems that by simp
      with \<open>\<not> rankBefore y x\<close> show ?thesis by (rule not_rankBefore_trans)
    qed
    ultimately show ?thesis using True Cons.prems by simp
  next
    case False
    then show ?thesis
      using Cons by (auto simp: set_insertCell)
  qed
qed

lemma insertionSort_is_std_sort: "is_std_sort insertionSort"
proof -
  have "mset (insertionSort cells) = mset cells" for cells
    by (induction cells) (simp_all add: mset_insertCell)
  moreover have "sorted_wrt (\<lambda>a b. \<not> rankBefore b a) (insertionSort cells)" for cells
    by (induction cells) (simp_all add: sorted_insertCell)
  ultimately show ?thesis by (simp add: is_std_sort_def)
qed

subsection \<open>The scenario of the urgent block\<close>

definition connectedCell :: "int \<Rightarrow> int \<Rightarrow> int \<Rightarrow> int \<Rightarrow> int \<Rightarrow> int \<Rightarrow> int \<Rightarrow> ConnectedCell" where
  "connectedCell r c v h dl dr t =
     \<lparr>row = r, column = c, verticalChain = v, horizontalChain = h,
      diagonalLeftChain = dl, diagonalRightChain = dr, totalConnected = t\<rparr>"

lemmas board_eval =
  countChain_defs countChainByDirection_def countChainLoop.simps cellAt_def at_def
  findConnectedCell_def columnByCellNumber_def rowByCellNumber_def
  signed_divide_int_def signed_modulo_int_def INT_MAX_def Let_def

lemma scenario_available:
  assumes "gridSize b = 3"
    and "grid b = [[''X'', ''X'', ''''], ['''', '''', ''''], ['''', '''', '''']]"
  shows "findAvailableCellNumbers b = [2, 3, 4, 5, 6, 7, 8]"
  by (simp add: findAvailableCellNumbers_def assms cellNumberByPosition_def wrap_int_def
      insort_insert_key_def upt_rec [of 0] upt_rec [of "Suc 0"] upt_rec [of 1] upt_rec [of 2]
      upt_rec [of 3])

lemma scenario_cells_X:
  assumes "gridSize b = 3"
    and "grid b = [[''X'', ''X'', ''''], ['''', '''', ''''], ['''', '''', '''']]"
  shows "collectConnectedCells b ''X'' [2, 3, 4, 5, 6, 7, 8] =
     Inr [connectedCell 0 2 0 2 0 0 3, connectedCell 1 0 1 0 0 1 0, connectedCell 1 1 1 0 1 0 0,
          connectedCell 1 2 0 0 1 0 0, connectedCell 2 0 0 0 0 0 0, connectedCell 2 1 0 0 0 0 0,
          connectedCell 2 2 0 0 0 0 0]"
  by (simp add: assms board_eval connectedCell_def)

lemma scenario_cells_O:
  assumes "gridSize b = 3"
    and "grid b = [[''X'', ''X'', ''''], ['''', '''', ''''], ['''', '''', '''']]"
  shows "collectConnectedCells b ''O'' [2, 3, 4, 5, 6, 7, 8] =
     Inr [connectedCell 0 2 0 0 0 0 0, connectedCell 1 0 0 0 0 0 0, connectedCell 1 1 0 0 0 0 0,
          connectedCell 1 2 0 0 0 0 0, connectedCell 2 0 0 0 0 0 0, connectedCell 2 1 0 0 0 0 0,
          connectedCell 2 2 0 0 0 0 0]"
  by (simp add: assms board_eval connectedCell_def)

subsection \<open>The urgent block\<close>

lemma findConnectedCell_total_nonneg:
  assumes "board_ok b" "findConnectedCell b r c m maxChain = Inr cell"
  shows "0 \<le> totalConnected cell"
proof -
  have "0 \<le> runLength b r c dr dc m (max 1 maxChain)" for dr dc
    using runLength_bounds [of b r c dr dc m "max 1 maxChain"] by simp
  then show ?thesis
    using assms(2) unfolding findConnectedCell_runLength [OF assms(1)]
    by (auto simp: Let_def)
qed

lemma collectConnectedCells_ok:
  assumes "board_ok b"
  shows "\<exists>cells. collectConnectedCells b mk ns = Inr cells \<and> length cells = length ns
      \<and> (\<forall>cell \<in> set cells. 0 \<le> totalConnected cell)"
proof (induction ns)
  case Nil
  then show ?case by simp
next
  case (Cons n ns)
  then obtain cells where cells: "collectConnectedCells b mk ns = Inr cells"
    "length cells = length ns" "\<forall>cell \<in> set cells. 0 \<le> totalConnected cell"
    by blast
  obtain cell where cell:
    "findConnectedCell b (rowByCellNumber b n) (columnByCellNumber b n) mk INT_MAX = Inr cell"
    using findConnectedCell_runLength [OF assms] by blast
  then have "0 \<le> totalConnected cell"
    using assms by (intro findConnectedCell_total_nonneg)
  moreover have "gridSize b \<noteq> 0" using assms by (simp add: board_ok_def)
  ultimately show ?case using cells cell by simp
qed

lemma rankAvailableCells_ok:
  assumes "is_std_sort sorter" "board_ok b"
  shows "\<exists>cells. rankAvailableCells sorter (Some b) player ns = Inr cells
      \<and> length cells = length ns \<and> (\<forall>cell \<in> set cells. 0 \<le> totalConnected cell)"
proof -
  from collectConnectedCells_ok [OF assms(2), of "marker player" ns]
  obtain cells where cells: "collectConnectedCells b (marker player) ns = Inr cells"
    "length cells = length ns" "\<forall>cell \<in> set cells. 0 \<le> totalConnected cell"
    by blast
  have m: "mset (sorter cells) = mset cells"
    using assms(1) by (simp add: is_std_sort_def)
  then have "length (sorter cells) = length cells" "set (sorter cells) = set cells"
    by (rule mset_eq_length, rule mset_eq_setD)
  with cells show ?thesis by (simp add: rankAvailableCells_def)
qed

text \<open>
  The decision of \<open>requireCellSelection\<close> when the first cell of the player to block
  has a total that is not 0 and is greater than the total of the bot's first cell.
\<close>

lemma requireCellSelection_urgent_block:
  assumes "players b \<noteq> []"
    and "rankAvailableCells sorter (Some b) self (findAvailableCellNumbers b)
          = Inr (topCell # rankedRest)"
    and "searchPlayerToBlock sorter b self (findAvailableCellNumbers b)
          [number self smod int (length (players b)) ..
           int (length (players b)) + number self smod int (length (players b)) - 1] ([], None)
          = Inr (block # blockRest, playerToBlock)"
    and "totalConnected block \<noteq> 0" and "totalConnected topCell < totalConnected block"
  shows "requireCellSelection sorter randomIndex (Some b) self
      = Inr (cellNumberByPosition b (row block) (column block))"
  unfolding requireCellSelection_def Let_def
  using assms by (simp add: at_def)

text \<open>With two players the player to block is the other player.\<close>

lemma searchPlayerToBlock_two_players:
  assumes seats: "players b = [opponent, self] \<and> number self = 2
        \<or> players b = [self, opponent] \<and> number self = 1"
    and ranked: "rankAvailableCells sorter (Some b) opponent availableCells = Inr playerCells"
  shows "\<exists>playerToBlock.
      searchPlayerToBlock sorter b self availableCells
        [number self smod int (length (players b)) ..
         int (length (players b)) + number self smod int (length (players b)) - 1] ([], None)
      = Inr (playerCells, playerToBlock)"
  using seats
proof
  assume s: "players b = [opponent, self] \<and> number self = 2"
  then have "[number self smod int (length (players b)) ..
       int (length (players b)) + number self smod int (length (players b)) - 1] = [0, 1]"
    by (simp add: signed_modulo_int_def upto_rec1)
  then show ?thesis
    using s by (simp add: signed_modulo_int_def at_def ranked)
next
  assume s: "players b = [self, opponent] \<and> number self = 1"
  then have "[number self smod int (length (players b)) ..
       int (length (players b)) + number self smod int (length (players b)) - 1] = [1, 2]"
    by (simp add: signed_modulo_int_def upto_rec1)
  then show ?thesis
    using s by (simp add: signed_modulo_int_def at_def ranked)
qed

lemma requireCellSelection_two_players:
  assumes sort: "is_std_sort sorter" and ok: "board_ok b"
    and seats: "players b = [opponent, self] \<and> number self = 2
        \<or> players b = [self, opponent] \<and> number self = 1"
  shows "\<exists>rankedCells playerToBlockCells.
      rankAvailableCells sorter (Some b) self (findAvailableCellNumbers b) = Inr rankedCells
    \<and> rankAvailableCells sorter (Some b) opponent (findAvailableCellNumbers b)
         = Inr playerToBlockCells
    \<and> (rankedCells \<noteq> []
         \<and> totalConnected (hd rankedCells) < totalConnected (hd playerToBlockCells)
        \<longrightarrow> requireCellSelection sorter randomIndex (Some b) self
            = Inr (cellNumberByPosition b (row (hd playerToBlockCells))
                     (column (hd playerToBlockCells))))"
proof -
  let ?avail = "findAvailableCellNumbers b"
  from rankAvailableCells_ok [OF sort ok, of self ?avail]
  obtain rankedCells where ranked: "rankAvailableCells sorter (Some b) self ?avail = Inr rankedCells"
    "length rankedCells = length ?avail" "\<forall>cell \<in> set rankedCells. 0 \<le> totalConnected cell"
    by blast
  from rankAvailableCells_ok [OF sort ok, of opponent ?avail]
  obtain blockCells where block: "rankAvailableCells sorter (Some b) opponent ?avail = Inr blockCells"
    "length blockCells = length ?avail"
    by blast
  have "requireCellSelection sorter randomIndex (Some b) self
      = Inr (cellNumberByPosition b (row (hd blockCells)) (column (hd blockCells)))"
    if ne: "rankedCells \<noteq> []"
      and more: "totalConnected (hd rankedCells) < totalConnected (hd blockCells)"
  proof -
    from ne obtain topCell rankedRest where r: "rankedCells = topCell # rankedRest"
      by (cases rankedCells) auto
    from ne ranked(2) block(2) have "blockCells \<noteq> []" by auto
    then obtain first blockRest where bl: "blockCells = first # blockRest"
      by (cases blockCells) auto
    have "0 \<le> totalConnected topCell" using ranked(3) r by simp
    with more r bl have pos: "totalConnected first \<noteq> 0" "totalConnected topCell < totalConnected first"
      by simp_all
    from searchPlayerToBlock_two_players [OF seats block(1)]
    obtain playerToBlock where search: "searchPlayerToBlock sorter b self ?avail
        [number self smod int (length (players b)) ..
         int (length (players b)) + number self smod int (length (players b)) - 1] ([], None)
      = Inr (first # blockRest, playerToBlock)"
      unfolding bl by blast
    have "players b \<noteq> []" using seats by auto
    from requireCellSelection_urgent_block [OF this ranked(1) [unfolded r] search pos]
    show ?thesis by (simp add: bl)
  qed
  with ranked(1) block(1) show ?thesis by blast
qed

lemma scenario_selection:
  assumes sort: "is_std_sort sorter"
    and size: "gridSize b = 3"
    and cells: "grid b = [[''X'', ''X'', ''''], ['''', '''', ''''], ['''', '''', '''']]"
    and markers: "marker opponent = ''X''" "marker botPlayer = ''O''"
    and seats: "players b = [opponent, botPlayer] \<and> number opponent = 1 \<and> number botPlayer = 2
        \<or> players b = [botPlayer, opponent] \<and> number botPlayer = 1 \<and> number opponent = 2"
  shows "requireCellSelection sorter randomIndex (Some b) botPlayer = Inr 2
     \<and> (\<exists>rankedCells playerToBlockCells.
           rankAvailableCells sorter (Some b) botPlayer (findAvailableCellNumbers b) = Inr rankedCells
         \<and> rankAvailableCells sorter (Some b) opponent (findAvailableCellNumbers b)
              = Inr playerToBlockCells
         \<and> totalConnected (hd rankedCells) = 0
         \<and> totalConnected (hd playerToBlockCells) = 3
         \<and> row (hd playerToBlockCells) = 0 \<and> column (hd playerToBlockCells) = 2)"
proof -
  define cellsX where "cellsX =
     [connectedCell 0 2 0 2 0 0 3, connectedCell 1 0 1 0 0 1 0, connectedCell 1 1 1 0 1 0 0,
      connectedCell 1 2 0 0 1 0 0, connectedCell 2 0 0 0 0 0 0, connectedCell 2 1 0 0 0 0 0,
      connectedCell 2 2 0 0 0 0 0]"
  define cellsO where "cellsO =
     [connectedCell 0 2 0 0 0 0 0, connectedCell 1 0 0 0 0 0 0, connectedCell 1 1 0 0 0 0 0,
      connectedCell 1 2 0 0 0 0 0, connectedCell 2 0 0 0 0 0 0, connectedCell 2 1 0 0 0 0 0,
      connectedCell 2 2 0 0 0 0 0]"
  have avail: "findAvailableCellNumbers b = [2, 3, 4, 5, 6, 7, 8]"
    using size cells by (rule scenario_available)
  have collectX: "collectConnectedCells b ''X'' [2, 3, 4, 5, 6, 7, 8] = Inr cellsX"
    unfolding cellsX_def using size cells by (rule scenario_cells_X)
  have collectO: "collectConnectedCells b ''O'' [2, 3, 4, 5, 6, 7, 8] = Inr cellsO"
    unfolding cellsO_def using size cells by (rule scenario_cells_O)
  have "cellsO \<noteq> []" by (simp add: cellsO_def)
  from std_sort_first [OF sort this]
  obtain topCell restO where sortedO: "sorter cellsO = topCell # restO"
    and "topCell \<in> set cellsO"
    by blast
  then have top: "totalConnected topCell = 0" "verticalChain topCell = 0"
    "horizontalChain topCell = 0" "diagonalLeftChain topCell = 0" "diagonalRightChain topCell = 0"
    by (auto simp: cellsO_def connectedCell_def)
  have "cellsX \<noteq> []" by (simp add: cellsX_def)
  from std_sort_first [OF sort this]
  obtain block restX where sortedX: "sorter cellsX = block # restX"
    and mem: "block \<in> set cellsX" and best: "\<forall>d \<in> set cellsX. \<not> rankBefore d block"
    by blast
  have "connectedCell 0 2 0 2 0 0 3 \<in> set cellsX" by (simp add: cellsX_def)
  with best have "\<not> rankBefore (connectedCell 0 2 0 2 0 0 3) block" by blast
  with mem have block: "block = connectedCell 0 2 0 2 0 0 3"
    by (auto simp: cellsX_def connectedCell_def rankBefore_def)
  have rankedO: "rankAvailableCells sorter (Some b) botPlayer [2, 3, 4, 5, 6, 7, 8] = Inr (topCell # restO)"
    by (simp only: rankAvailableCells_def markers collectO sortedO option.case sum.case)
  have rankedX: "rankAvailableCells sorter (Some b) opponent [2, 3, 4, 5, 6, 7, 8] = Inr (block # restX)"
    by (simp only: rankAvailableCells_def markers collectX sortedX option.case sum.case)
  have search: "\<exists>playerToBlock.
      searchPlayerToBlock sorter b botPlayer [2, 3, 4, 5, 6, 7, 8]
        [number botPlayer smod int (length (players b)) ..
         int (length (players b)) + number botPlayer smod int (length (players b)) - 1] ([], None)
      = Inr (block # restX, playerToBlock)"
    using seats
  proof
    assume s: "players b = [opponent, botPlayer] \<and> number opponent = 1 \<and> number botPlayer = 2"
    then have "[number botPlayer smod int (length (players b)) ..
         int (length (players b)) + number botPlayer smod int (length (players b)) - 1] = [0, 1]"
      by (simp add: signed_modulo_int_def upto_rec1)
    then show ?thesis
      using s by (simp add: signed_modulo_int_def at_def rankedX)
  next
    assume s: "players b = [botPlayer, opponent] \<and> number botPlayer = 1 \<and> number opponent = 2"
    then have "[number botPlayer smod int (length (players b)) ..
         int (length (players b)) + number botPlayer smod int (length (players b)) - 1] = [1, 2]"
      by (simp add: signed_modulo_int_def upto_rec1)
    then show ?thesis
      using s by (simp add: signed_modulo_int_def at_def rankedX)
  qed
  then obtain playerToBlock where search: "searchPlayerToBlock sorter b botPlayer [2, 3, 4, 5, 6, 7, 8]
        [number botPlayer smod int (length (players b)) ..
         int (length (players b)) + number botPlayer smod int (length (players b)) - 1] ([], None)
      = Inr (block # restX, playerToBlock)"
    by blast
  have n: "int (length (players b)) \<noteq> 0" using seats by auto
  have "requireCellSelection sorter randomIndex (Some b) botPlayer = Inr 2"
    unfolding requireCellSelection_def Let_def
    using n by (simp add: avail rankedO search at_def top block connectedCell_def
        cellNumberByPosition_def wrap_int_def size)
  moreover have "totalConnected (hd (topCell # restO)) = 0"
    "totalConnected (hd (block # restX)) = 3"
    "row (hd (block # restX)) = 0" "column (hd (block # restX)) = 2"
    by (simp_all add: top block connectedCell_def)
  ultimately show ?thesis
    using rankedO rankedX unfolding avail by blast
qed

text \<open>
  C2. On the 3 by 3 board where the opponent's marker X is on the cells 0 and 1 and no
  cell holds the bot's marker O, with two players (the opponent and the bot, in either
  seat order), the cell selection of the bot returns the cell 2, whatever order
  \<open>std::sort\<close> gives to cells of equal rank and whatever number would be drawn: the
  best-ranked cell of the opponent is the cell 2 (row 0, column 2) with \<open>totalConnected\<close>
  3, which is greater than the 0 of the bot's own best cell.
  This is the urgent block, which holds in general. On every board of two players with
  a cell left, when the \<open>totalConnected\<close> of the opponent's best-ranked cell is greater
  than that of the bot's own best-ranked cell, the selection is the cell number of the
  opponent's best-ranked cell. With any number of players, when the first cell of the
  player to block that the search loop returns has a \<open>totalConnected\<close> that is not 0 and
  is greater than that of the bot's own best-ranked cell, the selection is the cell
  number of that cell.
\<close>

theorem C2_bot_blocks:
  assumes sort: "is_std_sort sorter"
  shows "(gridSize b = 3
        \<and> grid b = [[''X'', ''X'', ''''], ['''', '''', ''''], ['''', '''', '''']]
        \<and> marker opponent = ''X'' \<and> marker botPlayer = ''O''
        \<and> (players b = [opponent, botPlayer] \<and> number opponent = 1 \<and> number botPlayer = 2
           \<or> players b = [botPlayer, opponent] \<and> number botPlayer = 1 \<and> number opponent = 2)
      \<longrightarrow> requireCellSelection sorter randomIndex (Some b) botPlayer = Inr 2
        \<and> (\<exists>rankedCells playerToBlockCells.
             rankAvailableCells sorter (Some b) botPlayer (findAvailableCellNumbers b)
               = Inr rankedCells
           \<and> rankAvailableCells sorter (Some b) opponent (findAvailableCellNumbers b)
               = Inr playerToBlockCells
           \<and> totalConnected (hd rankedCells) = 0
           \<and> totalConnected (hd playerToBlockCells) = 3
           \<and> row (hd playerToBlockCells) = 0 \<and> column (hd playerToBlockCells) = 2))
    \<and> (board_ok b
        \<and> (players b = [opponent, botPlayer] \<and> number botPlayer = 2
           \<or> players b = [botPlayer, opponent] \<and> number botPlayer = 1)
      \<longrightarrow> (\<exists>rankedCells playerToBlockCells.
             rankAvailableCells sorter (Some b) botPlayer (findAvailableCellNumbers b)
               = Inr rankedCells
           \<and> rankAvailableCells sorter (Some b) opponent (findAvailableCellNumbers b)
               = Inr playerToBlockCells
           \<and> (rankedCells \<noteq> []
                \<and> totalConnected (hd rankedCells) < totalConnected (hd playerToBlockCells)
               \<longrightarrow> requireCellSelection sorter randomIndex (Some b) botPlayer
                   = Inr (cellNumberByPosition b (row (hd playerToBlockCells))
                            (column (hd playerToBlockCells))))))
    \<and> (\<forall>rankedCells playerToBlockCells playerToBlock.
          players b \<noteq> []
        \<and> rankAvailableCells sorter (Some b) botPlayer (findAvailableCellNumbers b)
             = Inr rankedCells
        \<and> searchPlayerToBlock sorter b botPlayer (findAvailableCellNumbers b)
             [number botPlayer smod int (length (players b)) ..
              int (length (players b)) + number botPlayer smod int (length (players b)) - 1]
             ([], None)
             = Inr (playerToBlockCells, playerToBlock)
        \<and> rankedCells \<noteq> [] \<and> playerToBlockCells \<noteq> []
        \<and> totalConnected (hd playerToBlockCells) \<noteq> 0
        \<and> totalConnected (hd rankedCells) < totalConnected (hd playerToBlockCells)
      \<longrightarrow> requireCellSelection sorter randomIndex (Some b) botPlayer
          = Inr (cellNumberByPosition b (row (hd playerToBlockCells))
                   (column (hd playerToBlockCells))))"
proof (intro conjI impI allI)
  assume a: "gridSize b = 3
        \<and> grid b = [[''X'', ''X'', ''''], ['''', '''', ''''], ['''', '''', '''']]
        \<and> marker opponent = ''X'' \<and> marker botPlayer = ''O''
        \<and> (players b = [opponent, botPlayer] \<and> number opponent = 1 \<and> number botPlayer = 2
           \<or> players b = [botPlayer, opponent] \<and> number botPlayer = 1 \<and> number opponent = 2)"
  then have size: "gridSize b = 3"
    and cells: "grid b = [[''X'', ''X'', ''''], ['''', '''', ''''], ['''', '''', '''']]"
    and markers: "marker opponent = ''X''" "marker botPlayer = ''O''"
    and seats: "players b = [opponent, botPlayer] \<and> number opponent = 1 \<and> number botPlayer = 2
        \<or> players b = [botPlayer, opponent] \<and> number botPlayer = 1 \<and> number opponent = 2"
    by blast+
  note scenario = scenario_selection [OF sort size cells markers seats, of randomIndex]
  from scenario show "requireCellSelection sorter randomIndex (Some b) botPlayer = Inr 2"
    by (rule conjunct1)
  from scenario show "\<exists>rankedCells playerToBlockCells.
             rankAvailableCells sorter (Some b) botPlayer (findAvailableCellNumbers b)
               = Inr rankedCells
           \<and> rankAvailableCells sorter (Some b) opponent (findAvailableCellNumbers b)
               = Inr playerToBlockCells
           \<and> totalConnected (hd rankedCells) = 0
           \<and> totalConnected (hd playerToBlockCells) = 3
           \<and> row (hd playerToBlockCells) = 0 \<and> column (hd playerToBlockCells) = 2"
    by (rule conjunct2)
next
  assume "board_ok b
        \<and> (players b = [opponent, botPlayer] \<and> number botPlayer = 2
           \<or> players b = [botPlayer, opponent] \<and> number botPlayer = 1)"
  then show "\<exists>rankedCells playerToBlockCells.
             rankAvailableCells sorter (Some b) botPlayer (findAvailableCellNumbers b)
               = Inr rankedCells
           \<and> rankAvailableCells sorter (Some b) opponent (findAvailableCellNumbers b)
               = Inr playerToBlockCells
           \<and> (rankedCells \<noteq> []
                \<and> totalConnected (hd rankedCells) < totalConnected (hd playerToBlockCells)
               \<longrightarrow> requireCellSelection sorter randomIndex (Some b) botPlayer
                   = Inr (cellNumberByPosition b (row (hd playerToBlockCells))
                            (column (hd playerToBlockCells))))"
    using requireCellSelection_two_players [OF sort, of b opponent botPlayer randomIndex]
    by blast
next
  fix rankedCells playerToBlockCells playerToBlock
  assume a: "players b \<noteq> []
        \<and> rankAvailableCells sorter (Some b) botPlayer (findAvailableCellNumbers b)
             = Inr rankedCells
        \<and> searchPlayerToBlock sorter b botPlayer (findAvailableCellNumbers b)
             [number botPlayer smod int (length (players b)) ..
              int (length (players b)) + number botPlayer smod int (length (players b)) - 1]
             ([], None)
             = Inr (playerToBlockCells, playerToBlock)
        \<and> rankedCells \<noteq> [] \<and> playerToBlockCells \<noteq> []
        \<and> totalConnected (hd playerToBlockCells) \<noteq> 0
        \<and> totalConnected (hd rankedCells) < totalConnected (hd playerToBlockCells)"
  then obtain topCell rankedRest block blockRest
    where r: "rankedCells = topCell # rankedRest" and p: "playerToBlockCells = block # blockRest"
    by (cases rankedCells; cases playerToBlockCells) auto
  from a show "requireCellSelection sorter randomIndex (Some b) botPlayer
          = Inr (cellNumberByPosition b (row (hd playerToBlockCells))
                   (column (hd playerToBlockCells)))"
    unfolding r p using requireCellSelection_urgent_block [of b sorter botPlayer topCell rankedRest
        block blockRest playerToBlock randomIndex]
    by simp
qed

text \<open>
  A second board for the concrete input: the opponent's X on the cells 7 and 8, the
  bot's O on the cell 4. The cell that blocks is the cell 6, which is not the first free
  cell, and the bot has cells of its own to build on.
\<close>

definition blockBoard :: Board where
  "blockBoard = \<lparr>variant = Classic, players = [playerX, botO], gridSize = 3,
     grid = [['''', '''', ''''], ['''', ''O'', ''''], ['''', ''X'', ''X'']],
     playerTurn = Some 1\<rparr>"

theorem C2_bot_blocks_witness:
  "is_std_sort insertionSort
   \<and> gridSize scenarioBoard = 3
   \<and> grid scenarioBoard = [[''X'', ''X'', ''''], ['''', '''', ''''], ['''', '''', '''']]
   \<and> marker playerX = ''X'' \<and> marker botO = ''O''
   \<and> players scenarioBoard = [playerX, botO] \<and> number playerX = 1 \<and> number botO = 2
   \<and> requireCellSelection insertionSort 0 (Some scenarioBoard) botO = Inr 2
   \<and> board_ok blockBoard \<and> players blockBoard = [playerX, botO]
   \<and> findAvailableCellNumbers blockBoard = [0, 1, 2, 3, 5, 6]
   \<and> requireCellSelection insertionSort 0 (Some blockBoard) botO = Inr 6"
proof -
  have board: "gridSize scenarioBoard = 3"
    "grid scenarioBoard = [[''X'', ''X'', ''''], ['''', '''', ''''], ['''', '''', '''']]"
    and markers: "marker playerX = ''X''" "marker botO = ''O''"
    and seats: "players scenarioBoard = [playerX, botO] \<and> number playerX = 1 \<and> number botO = 2"
    by (simp_all add: scenarioBoard_def playerX_def botO_def)
  from C2_bot_blocks [OF insertionSort_is_std_sort, where b = scenarioBoard and opponent = playerX
      and botPlayer = botO and randomIndex = 0, THEN conjunct1] board markers seats
  have first: "requireCellSelection insertionSort 0 (Some scenarioBoard) botO = Inr 2"
    by blast
  have ok: "board_ok blockBoard" and ps: "players blockBoard = [playerX, botO]"
    and two: "number botO = 2"
    by (simp_all add: board_ok_def blockBoard_def INT_MAX_def botO_def)
  have avail: "findAvailableCellNumbers blockBoard = [0, 1, 2, 3, 5, 6]"
    by (simp add: findAvailableCellNumbers_def blockBoard_def cellNumberByPosition_def
        wrap_int_def insort_insert_key_def upt_rec [of 0] upt_rec [of "Suc 0"] upt_rec [of 1]
        upt_rec [of 2] upt_rec [of 3])
  have own: "\<exists>cells. rankAvailableCells insertionSort (Some blockBoard) botO [0, 1, 2, 3, 5, 6]
        = Inr cells \<and> cells \<noteq> [] \<and> totalConnected (hd cells) = 0"
    by (simp add: rankAvailableCells_def board_eval blockBoard_def botO_def rankBefore_def)
  have other: "\<exists>cells. rankAvailableCells insertionSort (Some blockBoard) playerX [0, 1, 2, 3, 5, 6]
        = Inr cells \<and> totalConnected (hd cells) = 3 \<and> row (hd cells) = 2 \<and> column (hd cells) = 0"
    by (simp add: rankAvailableCells_def board_eval blockBoard_def playerX_def rankBefore_def)
  from C2_bot_blocks [OF insertionSort_is_std_sort, where b = blockBoard and opponent = playerX
      and botPlayer = botO and randomIndex = 0, THEN conjunct2, THEN conjunct1] ok ps two
  obtain rankedCells playerToBlockCells where
    r: "rankAvailableCells insertionSort (Some blockBoard) botO [0, 1, 2, 3, 5, 6] = Inr rankedCells"
    and p: "rankAvailableCells insertionSort (Some blockBoard) playerX [0, 1, 2, 3, 5, 6]
        = Inr playerToBlockCells"
    and sel: "rankedCells \<noteq> []
        \<and> totalConnected (hd rankedCells) < totalConnected (hd playerToBlockCells)
      \<longrightarrow> requireCellSelection insertionSort 0 (Some blockBoard) botO
          = Inr (cellNumberByPosition blockBoard (row (hd playerToBlockCells))
                   (column (hd playerToBlockCells)))"
    unfolding avail by blast
  from own r have "rankedCells \<noteq> []" "totalConnected (hd rankedCells) = 0" by auto
  moreover from other p have "totalConnected (hd playerToBlockCells) = 3"
    "row (hd playerToBlockCells) = 2" "column (hd playerToBlockCells) = 0" by auto
  ultimately have "requireCellSelection insertionSort 0 (Some blockBoard) botO
      = Inr (cellNumberByPosition blockBoard 2 0)"
    using sel by simp
  then have second: "requireCellSelection insertionSort 0 (Some blockBoard) botO = Inr 6"
    by (simp add: cellNumberByPosition_def wrap_int_def blockBoard_def)
  from insertionSort_is_std_sort board markers seats first ok ps avail second
  show ?thesis by simp
qed

end
